theory Spec2Isabelle
  imports Complex_Main
begin

section \<open>JavaScript values\<close>

text \<open>
  A JavaScript number is a double. The model keeps the three kinds of value on which the
  code's comparisons, \<open>Math.max\<close>, \<open>Math.min\<close> and truthiness tests behave specially:
  \<open>NaN\<close>, the two infinities and the finite numbers. Finite numbers are reals: rounding is
  not modelled, and \<open>+0\<close> and \<open>-0\<close> are one value (they are \<open>===\<close> to each other).
\<close>

datatype jsnum = NaN | NegInf | Fin real | PosInf

text \<open>The operator \<open><\<close> on numbers: false as soon as one side is \<open>NaN\<close>.\<close>

fun js_lt :: "jsnum \<Rightarrow> jsnum \<Rightarrow> bool" where
  "js_lt NaN b = False"
| "js_lt a NaN = False"
| "js_lt PosInf b = False"
| "js_lt a NegInf = False"
| "js_lt NegInf b = True"
| "js_lt a PosInf = True"
| "js_lt (Fin a) (Fin b) = (a < b)"

text \<open>The operator \<open><=\<close> on numbers.\<close>

definition js_le :: "jsnum \<Rightarrow> jsnum \<Rightarrow> bool" where
  "js_le a b = (a \<noteq> NaN \<and> b \<noteq> NaN \<and> \<not> js_lt b a)"

text \<open>The operator \<open>===\<close> on numbers: \<open>NaN\<close> is not equal to itself.\<close>

definition js_eq :: "jsnum \<Rightarrow> jsnum \<Rightarrow> bool" where
  "js_eq a b = (a \<noteq> NaN \<and> b \<noteq> NaN \<and> a = b)"

text \<open>\<open>Math.max\<close> and \<open>Math.min\<close> of two numbers: \<open>NaN\<close> as soon as one argument is.\<close>

definition js_max :: "jsnum \<Rightarrow> jsnum \<Rightarrow> jsnum" where
  "js_max a b = (if a = NaN \<or> b = NaN then NaN else if js_lt a b then b else a)"

definition js_min :: "jsnum \<Rightarrow> jsnum \<Rightarrow> jsnum" where
  "js_min a b = (if a = NaN \<or> b = NaN then NaN else if js_lt b a then b else a)"

text \<open>The operator \<open>-\<close> on numbers; the difference of two equal infinities is \<open>NaN\<close>.\<close>

fun js_sub :: "jsnum \<Rightarrow> jsnum \<Rightarrow> jsnum" where
  "js_sub NaN b = NaN"
| "js_sub a NaN = NaN"
| "js_sub PosInf PosInf = NaN"
| "js_sub NegInf NegInf = NaN"
| "js_sub PosInf b = PosInf"
| "js_sub NegInf b = NegInf"
| "js_sub a PosInf = NegInf"
| "js_sub a NegInf = PosInf"
| "js_sub (Fin a) (Fin b) = Fin (a - b)"

text \<open>A number is falsy when it is zero or \<open>NaN\<close>.\<close>

definition num_truthy :: "jsnum \<Rightarrow> bool" where
  "num_truthy n = (n \<noteq> NaN \<and> n \<noteq> Fin 0)"

text \<open>
  The values a field of an attribute record or of a partial state can hold at run time.
  A field that is absent reads as \<open>JUndefined\<close>.
\<close>

datatype jsvalue = JUndefined | JNull | JBool bool | JNumber jsnum | JString string

text \<open>\<open>typeof v === "number"\<close>\<close>

fun is_number :: "jsvalue \<Rightarrow> bool" where
  "is_number (JNumber n) = True"
| "is_number v = False"

section \<open>The camera (src/core/camera.ts)\<close>

record camera_state =
  state_x :: jsnum
  state_y :: jsnum
  state_angle :: jsnum
  state_ratio :: jsnum

text \<open>\<open>Partial<CameraState>\<close>: every field may be absent or hold any value.\<close>

record partial_state =
  part_x :: jsvalue
  part_y :: jsvalue
  part_angle :: jsvalue
  part_ratio :: jsvalue

text \<open>
  The fields of class \<open>Camera\<close>. \<open>minRatio\<close> and \<open>maxRatio\<close> are \<open>number | null\<close>,
  \<open>previousState\<close> is \<open>CameraState | null\<close>. \<open>emitted\<close> is the log of the payloads passed
  to \<open>emit("updated", ...)\<close>, oldest first; listeners are not modelled.
\<close>

record camera =
  cam_x :: jsnum
  cam_y :: jsnum
  cam_angle :: jsnum
  cam_ratio :: jsnum
  minRatio :: "jsnum option"
  maxRatio :: "jsnum option"
  nextFrame :: "nat option"
  previousState :: "camera_state option"
  enabled :: bool
  emitted :: "camera_state list"

definition getState :: "camera \<Rightarrow> camera_state" where
  "getState c =
     \<lparr>state_x = cam_x c, state_y = cam_y c, state_angle = cam_angle c, state_ratio = cam_ratio c\<rparr>"

text \<open>The field initialisers followed by the constructor body.\<close>

definition new_Camera :: camera where
  "new_Camera =
     (let c = \<lparr>cam_x = Fin 0.5, cam_y = Fin 0.5, cam_angle = Fin 0, cam_ratio = Fin 1,
                minRatio = None, maxRatio = None, nextFrame = None, previousState = None,
                enabled = True, emitted = []\<rparr>
      in c\<lparr>previousState := Some (getState c)\<rparr>)"

definition enable :: "camera \<Rightarrow> camera" where
  "enable c = c\<lparr>enabled := True\<rparr>"

definition disable :: "camera \<Rightarrow> camera" where
  "disable c = c\<lparr>enabled := False\<rparr>"

definition hasState :: "camera \<Rightarrow> camera_state \<Rightarrow> bool" where
  "hasState c st =
     (js_eq (cam_x c) (state_x st) \<and> js_eq (cam_y c) (state_y st) \<and>
      js_eq (cam_ratio c) (state_ratio st) \<and> js_eq (cam_angle c) (state_angle st))"

definition getPreviousState :: "camera \<Rightarrow> camera_state option" where
  "getPreviousState c =
     (case previousState c of
        None \<Rightarrow> None
      | Some st \<Rightarrow>
          Some \<lparr>state_x = state_x st, state_y = state_y st, state_angle = state_angle st,
                state_ratio = state_ratio st\<rparr>)"

definition getBoundedRatio :: "camera \<Rightarrow> jsnum \<Rightarrow> jsnum" where
  "getBoundedRatio c r0 =
     (let r1 = (case minRatio c of Some lo \<Rightarrow> js_max r0 lo | None \<Rightarrow> r0);
          r2 = (case maxRatio c of Some hi \<Rightarrow> js_min r1 hi | None \<Rightarrow> r1)
      in r2)"

definition validateState :: "camera \<Rightarrow> partial_state \<Rightarrow> partial_state" where
  "validateState c st =
     (let v0 = \<lparr>part_x = JUndefined, part_y = JUndefined, part_angle = JUndefined,
                 part_ratio = JUndefined\<rparr>;
          v1 = (if is_number (part_x st) then v0\<lparr>part_x := part_x st\<rparr> else v0);
          v2 = (if is_number (part_y st) then v1\<lparr>part_y := part_y st\<rparr> else v1);
          v3 = (if is_number (part_angle st) then v2\<lparr>part_angle := part_angle st\<rparr> else v2);
          v4 = (case part_ratio st of
                  JNumber r \<Rightarrow> v3\<lparr>part_ratio := JNumber (getBoundedRatio c r)\<rparr>
                | _ \<Rightarrow> v3)
      in v4)"

definition isAnimated :: "camera \<Rightarrow> bool" where
  "isAnimated c = (case nextFrame c of None \<Rightarrow> False | Some n \<Rightarrow> n \<noteq> 0)"

definition setState :: "partial_state \<Rightarrow> camera \<Rightarrow> camera" where
  "setState st c =
     (if \<not> enabled c then c
      else
        let prev = getState c;
            c0 = c\<lparr>previousState := Some prev\<rparr>;
            validState = validateState c0 st;
            c1 = (case part_x validState of JNumber n \<Rightarrow> c0\<lparr>cam_x := n\<rparr> | _ \<Rightarrow> c0);
            c2 = (case part_y validState of JNumber n \<Rightarrow> c1\<lparr>cam_y := n\<rparr> | _ \<Rightarrow> c1);
            c3 = (case part_angle validState of JNumber n \<Rightarrow> c2\<lparr>cam_angle := n\<rparr> | _ \<Rightarrow> c2);
            c4 = (case part_ratio validState of JNumber n \<Rightarrow> c3\<lparr>cam_ratio := n\<rparr> | _ \<Rightarrow> c3)
        in if \<not> hasState c4 prev then c4\<lparr>emitted := emitted c4 @ [getState c4]\<rparr> else c4)"

definition updateState :: "(camera_state \<Rightarrow> partial_state) \<Rightarrow> camera \<Rightarrow> camera" where
  "updateState updater c = setState (updater (getState c)) c"

text \<open>A run of \<open>setState\<close> calls, first call first.\<close>

definition setStates :: "partial_state list \<Rightarrow> camera \<Rightarrow> camera" where
  "setStates ps c = foldl (\<lambda>c' p. setState p c') c ps"

text \<open>
  What a client can do to a camera: the state-setting methods, \<open>enable\<close>, \<open>disable\<close>, and
  the assignment of the two public bound fields (as \<open>Sigma.handleSettingsUpdate\<close> does).
\<close>

datatype camera_op =
    OpSetState partial_state
  | OpUpdateState "camera_state \<Rightarrow> partial_state"
  | OpEnable
  | OpDisable
  | OpSetBounds "jsnum option" "jsnum option"

fun apply_camera_op :: "camera \<Rightarrow> camera_op \<Rightarrow> camera" where
  "apply_camera_op c (OpSetState p) = setState p c"
| "apply_camera_op c (OpUpdateState f) = updateState f c"
| "apply_camera_op c OpEnable = enable c"
| "apply_camera_op c OpDisable = disable c"
| "apply_camera_op c (OpSetBounds lo hi) = c\<lparr>minRatio := lo, maxRatio := hi\<rparr>"

definition run_camera_ops :: "camera_op list \<Rightarrow> camera \<Rightarrow> camera" where
  "run_camera_ops ops c = foldl apply_camera_op c ops"

subsection \<open>The specification's reading of the camera\<close>

text \<open>
  The definitions of this subsection follow the words of the specification, not the code;
  the theorems compare them with the code.

  The clamp as the specification writes it: \<open>min(max(ratio, minRatio), maxRatio)\<close>, each
  bound applied only where it is set.
\<close>

definition spec_clamp :: "jsnum option \<Rightarrow> jsnum option \<Rightarrow> jsnum \<Rightarrow> jsnum" where
  "spec_clamp lo hi r =
     (case (lo, hi) of
        (None, None) \<Rightarrow> r
      | (Some a, None) \<Rightarrow> js_max r a
      | (None, Some b) \<Rightarrow> js_min r b
      | (Some a, Some b) \<Rightarrow> js_min (js_max r a) b)"

text \<open>The default state, \<open>{x: 0.5, y: 0.5, angle: 0, ratio: 1}\<close>.\<close>

definition default_state :: camera_state where
  "default_state = \<lparr>state_x = Fin 0.5, state_y = Fin 0.5, state_angle = Fin 0, state_ratio = Fin 1\<rparr>"

text \<open>The last numeric value supplied for a field, if any call supplied one.\<close>

fun last_number :: "jsvalue list \<Rightarrow> jsnum option" where
  "last_number [] = None"
| "last_number (v # vs) =
     (case last_number vs of
        Some n \<Rightarrow> Some n
      | None \<Rightarrow> (case v of JNumber n \<Rightarrow> Some n | _ \<Rightarrow> None))"

text \<open>One field of the merge: the last numeric value supplied, else the default.\<close>

definition merge_field :: "jsnum \<Rightarrow> jsvalue list \<Rightarrow> jsnum" where
  "merge_field d vs = (case last_number vs of Some n \<Rightarrow> n | None \<Rightarrow> d)"

text \<open>
  The field-wise merge of the valid fields of the calls over the default state, every
  supplied ratio clamped to the bounds.
\<close>

definition spec_merge :: "jsnum option \<Rightarrow> jsnum option \<Rightarrow> partial_state list \<Rightarrow> camera_state" where
  "spec_merge lo hi ps =
     \<lparr>state_x = merge_field (state_x default_state) (map part_x ps),
      state_y = merge_field (state_y default_state) (map part_y ps),
      state_angle = merge_field (state_angle default_state) (map part_angle ps),
      state_ratio =
        (case last_number (map part_ratio ps) of
           Some r \<Rightarrow> spec_clamp lo hi r
         | None \<Rightarrow> state_ratio default_state)\<rparr>"

text \<open>A ratio within \<open>[lo, hi]\<close>, by the comparisons of the language.\<close>

definition within_bounds :: "jsnum \<Rightarrow> jsnum \<Rightarrow> jsnum \<Rightarrow> bool" where
  "within_bounds lo hi r = (js_le lo r \<and> js_le r hi)"

subsection \<open>Definitions used to state the properties of the camera\<close>

text \<open>Field-wise \<open>===\<close> of two camera states.\<close>

definition state_strict_eq :: "camera_state \<Rightarrow> camera_state \<Rightarrow> bool" where
  "state_strict_eq a b =
     (js_eq (state_x a) (state_x b) \<and> js_eq (state_y a) (state_y b) \<and>
      js_eq (state_angle a) (state_angle b) \<and> js_eq (state_ratio a) (state_ratio b))"

text \<open>A camera state none of whose fields is \<open>NaN\<close>.\<close>

definition nan_free :: "camera_state \<Rightarrow> bool" where
  "nan_free a =
     (state_x a \<noteq> NaN \<and> state_y a \<noteq> NaN \<and> state_angle a \<noteq> NaN \<and> state_ratio a \<noteq> NaN)"

text \<open>
  A validated field equals the current value: the field is absent from the validated
  state, or it is the number the camera already holds.
\<close>

definition field_unchanged :: "jsvalue \<Rightarrow> jsnum \<Rightarrow> bool" where
  "field_unchanged v cur = (case v of JNumber n \<Rightarrow> n = cur | _ \<Rightarrow> True)"

definition validated_equal_current :: "camera \<Rightarrow> partial_state \<Rightarrow> bool" where
  "validated_equal_current c st =
     (let v = validateState c st
      in field_unchanged (part_x v) (cam_x c) \<and> field_unchanged (part_y v) (cam_y c) \<and>
         field_unchanged (part_angle v) (cam_angle c) \<and> field_unchanged (part_ratio v) (cam_ratio c))"

text \<open>The number a value holds, or a fallback when it is not a number.\<close>

definition num_or :: "jsvalue \<Rightarrow> jsnum \<Rightarrow> jsnum" where
  "num_or v d = (case v of JNumber n \<Rightarrow> n | _ \<Rightarrow> d)"

text \<open>A partial state with no field, \<open>{}\<close>.\<close>

definition empty_partial :: partial_state where
  "empty_partial =
     \<lparr>part_x = JUndefined, part_y = JUndefined, part_angle = JUndefined, part_ratio = JUndefined\<rparr>"

text \<open>
  The camera after the assignments of \<open>setState\<close>, before the notification is decided.
\<close>

definition applied :: "partial_state \<Rightarrow> camera \<Rightarrow> camera" where
  "applied st c = c\<lparr>previousState := Some (getState c),
                 cam_x := num_or (part_x st) (cam_x c),
                 cam_y := num_or (part_y st) (cam_y c),
                 cam_angle := num_or (part_angle st) (cam_angle c),
                 cam_ratio := (case part_ratio st of JNumber r \<Rightarrow> getBoundedRatio c r | _ \<Rightarrow> cam_ratio c)\<rparr>"

section \<open>The renderer (class \<open>Sigma\<close>)\<close>

subsection \<open>Data\<close>

text \<open>
  An attribute record is a JavaScript object: a finite map from property names to values.
  \<open>d k = None\<close> is \<open>!d.hasOwnProperty(k)\<close>; reading an absent property gives
  \<open>undefined\<close>. Prototype chains and object-valued attributes are not modelled.
\<close>

type_synonym attrs = "string \<Rightarrow> jsvalue option"

definition get_prop :: "attrs \<Rightarrow> string \<Rightarrow> jsvalue" where
  "get_prop d k = (case d k of Some v \<Rightarrow> v | None \<Rightarrow> JUndefined)"

text \<open>Truthiness of a value, as \<open>!v\<close> and \<open>v || w\<close> test it.\<close>

fun truthy :: "jsvalue \<Rightarrow> bool" where
  "truthy JUndefined = False"
| "truthy JNull = False"
| "truthy (JBool b) = b"
| "truthy (JNumber n) = num_truthy n"
| "truthy (JString str) = (str \<noteq> [])"

text \<open>\<open>a || b\<close> on numbers.\<close>

definition num_or_else :: "jsnum \<Rightarrow> jsnum \<Rightarrow> jsnum" where
  "num_or_else a b = (if num_truthy a then a else b)"

type_synonym matrix = "jsnum list"

record dimensions =
  dim_width :: jsnum
  dim_height :: jsnum

text \<open>\<open>{ x: Extent; y: Extent }\<close>, an extent being the pair \<open>[min, max]\<close>.\<close>

record bbox =
  bbox_x :: "jsnum \<times> jsnum"
  bbox_y :: "jsnum \<times> jsnum"

text \<open>
  \<open>CoordinateConversionOverride\<close>: five optional fields. An object-valued field is truthy
  whenever it is present; the padding is a number.
\<close>

record coordinate_override =
  ov_cameraState :: "camera_state option"
  ov_viewportDimensions :: "dimensions option"
  ov_graphDimensions :: "dimensions option"
  ov_padding :: "jsnum option"
  ov_matrix :: "matrix option"

definition no_override :: coordinate_override where
  "no_override =
     \<lparr>ov_cameraState = None, ov_viewportDimensions = None, ov_graphDimensions = None,
      ov_padding = None, ov_matrix = None\<rparr>"

text \<open>The settings the modelled methods read (src/settings.ts).\<close>

record sigma_settings =
  defaultNodeColor :: string
  defaultNodeType :: string
  defaultEdgeColor :: string
  defaultEdgeType :: string
  stagePadding :: jsnum
  labelDensity :: jsnum
  nodeReducer :: "(string \<Rightarrow> attrs \<Rightarrow> attrs) option"
  edgeReducer :: "(string \<Rightarrow> attrs \<Rightarrow> attrs) option"
  zIndex :: bool
  minCameraRatio :: "jsnum option"
  maxCameraRatio :: "jsnum option"
  allowInvalidContainer :: bool
  nodeProgramClasses :: "string list"

text \<open>
  The graph is an external collaborator: its node and edge keys, in the order
  \<open>graph.nodes()\<close> and \<open>graph.edges()\<close> list them, each with its attributes.
\<close>

record graph_data =
  graph_nodes :: "(string \<times> attrs) list"
  graph_edges :: "(string \<times> attrs) list"

text \<open>The errors the modelled code throws.\<close>

datatype error =
    NodePositionError string
  | NodeProgramError string
  | UndefinedDataError string
  | ContainerWidthError
  | ContainerHeightError
  | LabelDensityError
  | CameraRatioError
  | GraphError

text \<open>
  Functions of \<open>./utils\<close> that the class calls and whose source is not available. They
  are parameters of the model:
  \<^item> \<open>matrixFromCamera state viewport graph padding inverse\<close>;
  \<^item> \<open>graphExtent graph\<close>;
  \<^item> \<open>applyNormalization extent data\<close>, for
    \<open>createNormalizationFunction(extent).applyTo(data)\<close>;
  \<^item> \<open>zIndexOrder cache nodes\<close>, for the z-index branch of \<open>process\<close> (the bookkeeping
    of the z-index extent and \<open>zIndexOrdering\<close>);
  \<^item> \<open>numberToString\<close>, for the conversion of a number by \<open>"" + v\<close>;
  \<^item> \<open>validateGraph graph\<close>, the error it throws, if any.
\<close>

record helpers =
  matrixFromCamera :: "camera_state \<Rightarrow> dimensions \<Rightarrow> dimensions \<Rightarrow> jsnum \<Rightarrow> bool \<Rightarrow> matrix"
  graphExtent :: "graph_data \<Rightarrow> bbox"
  applyNormalization :: "bbox \<Rightarrow> attrs \<Rightarrow> attrs"
  zIndexOrder :: "(string \<Rightarrow> attrs option) \<Rightarrow> string list \<Rightarrow> string list"
  numberToString :: "jsnum \<Rightarrow> string"
  validateGraph :: "graph_data \<Rightarrow> error option"

text \<open>\<open>"" + v\<close>\<close>

definition toString :: "helpers \<Rightarrow> jsvalue \<Rightarrow> string" where
  "toString h v =
     (case v of
        JString str \<Rightarrow> str
      | JNumber n \<Rightarrow> numberToString h n
      | JBool b \<Rightarrow> (if b then ''true'' else ''false'')
      | JNull \<Rightarrow> ''null''
      | JUndefined \<Rightarrow> ''undefined'')"

text \<open>
  What the renderer does to its environment, in order: events emitted to listeners, frames
  requested and cancelled. \<open>Processed keepArrays\<close> marks an entry into \<open>process\<close>; it is not
  an effect of the source and only serves to count executions.
\<close>

datatype effect =
    Emitted string
  | FrameRequested nat
  | FrameCancelled nat
  | Processed bool

text \<open>
  The fields of class \<open>Sigma\<close> that the modelled methods read or write, followed by the
  environment: the size of the container element (\<open>offsetWidth\<close>, \<open>offsetHeight\<close>), the
  frames requested and not yet fired or cancelled, the next frame handle, and the log of
  effects. \<open>normalizationExtent\<close> is the extent from which \<open>normalizationFunction\<close> was
  created. \<open>nodePrograms\<close> holds the type names of the instantiated programs.

  The class extends an event emitter: \<open>on(name, listener)\<close> registers a listener and
  \<open>emit(name)\<close> runs the listeners registered for \<open>name\<close> synchronously, in the order of
  their registration. A listener is client code; the model keeps the calls it makes on the
  renderer, each either \<open>scheduleRefresh()\<close> or \<open>setCustomBBox(b)\<close>. \<open>listeners\<close> gives,
  for an event name, the calls of the listeners registered for it, in order. A listener
  that calls \<open>refresh()\<close> re-enters \<open>render\<close> from within \<open>render\<close> and is not modelled.
\<close>

datatype listener_call = CallScheduleRefresh | CallSetCustomBBox "bbox option"

record sigma =
  settings :: sigma_settings
  graph :: graph_data
  nodeDataCache :: "string \<Rightarrow> attrs option"
  edgeDataCache :: "string \<Rightarrow> attrs option"
  nodesWithForcedLabels :: "string list"
  edgesWithForcedLabels :: "string list"
  nodeExtent :: bbox
  matrix :: matrix
  invMatrix :: matrix
  customBBox :: "bbox option"
  normalizationExtent :: bbox
  width :: jsnum
  height :: jsnum
  highlightedNodes :: "string set"
  hoveredNode :: "string option"
  hoveredEdge :: "string option"
  renderFrame :: "nat option"
  needToProcess :: bool
  needToSoftProcess :: bool
  nodePrograms :: "string list"
  camera :: camera
  containerWidth :: nat
  containerHeight :: nat
  pendingFrames :: "nat list"
  nextHandle :: nat
  trace :: "effect list"
  listeners :: "string \<Rightarrow> listener_call list"

text \<open>
  A method that may throw returns the error, if any, with the state as the method left
  it: a JavaScript exception does not undo the assignments made before it.
\<close>

type_synonym outcome = "error option \<times> sigma"

definition andThen :: "outcome \<Rightarrow> (sigma \<Rightarrow> outcome) \<Rightarrow> outcome" where
  "andThen r f = (case fst r of Some e \<Rightarrow> r | None \<Rightarrow> f (snd r))"

subsection \<open>Frames\<close>

text \<open>
  Modelled from the spec: \<open>requestFrame\<close> and \<open>cancelFrame\<close> of \<open>./utils\<close>, the
  frame-scheduling primitive "run this callback before the next paint" with a cancel
  handle. A request returns a fresh handle and queues the frame; a cancellation removes it
  from the queue. Every frame the renderer requests carries the same callback,
  \<open>() => { this._refresh(); this.renderFrame = null; }\<close>.
\<close>

definition requestFrame :: "sigma \<Rightarrow> nat \<times> sigma" where
  "requestFrame s =
     (nextHandle s,
      s\<lparr>pendingFrames := pendingFrames s @ [nextHandle s],
        nextHandle := Suc (nextHandle s),
        trace := trace s @ [FrameRequested (nextHandle s)]\<rparr>)"

definition cancelFrame :: "nat \<Rightarrow> sigma \<Rightarrow> sigma" where
  "cancelFrame tok s =
     s\<lparr>pendingFrames := removeAll tok (pendingFrames s),
       trace := trace s @ [FrameCancelled tok]\<rparr>"

text \<open>Truthiness of \<open>this.renderFrame\<close>, a \<open>number | null\<close>.\<close>

definition frame_truthy :: "nat option \<Rightarrow> bool" where
  "frame_truthy f = (case f of None \<Rightarrow> False | Some n \<Rightarrow> n \<noteq> 0)"

subsection \<open>Display data\<close>

text \<open>
  \<open>applyNodeDefaults\<close> mutates and returns its argument; the model returns the updated
  record, or the error thrown.
\<close>

definition applyNodeDefaults :: "helpers \<Rightarrow> sigma_settings \<Rightarrow> string \<Rightarrow> attrs \<Rightarrow> error + attrs" where
  "applyNodeDefaults h st key d0 =
     (if d0 ''x'' = None \<or> d0 ''y'' = None then Inl (NodePositionError key)
      else
        let d1 = (if \<not> truthy (get_prop d0 ''color'')
                  then d0(''color'' \<mapsto> JString (defaultNodeColor st)) else d0);
            d2 = (if \<not> truthy (get_prop d1 ''label'') \<and> get_prop d1 ''label'' \<noteq> JString []
                  then d1(''label'' \<mapsto> JNull) else d1);
            d3 = (if get_prop d2 ''label'' \<noteq> JUndefined \<and> get_prop d2 ''label'' \<noteq> JNull
                  then d2(''label'' \<mapsto> JString (toString h (get_prop d2 ''label'')))
                  else d2(''label'' \<mapsto> JNull));
            d4 = (if \<not> truthy (get_prop d3 ''size'')
                  then d3(''size'' \<mapsto> JNumber (Fin 2)) else d3);
            d5 = (if d4 ''hidden'' = None then d4(''hidden'' \<mapsto> JBool False) else d4);
            d6 = (if d5 ''highlighted'' = None then d5(''highlighted'' \<mapsto> JBool False) else d5);
            d7 = (if d6 ''forceLabel'' = None then d6(''forceLabel'' \<mapsto> JBool False) else d6);
            d8 = (if \<not> truthy (get_prop d7 ''type'') \<or> get_prop d7 ''type'' = JString []
                  then d7(''type'' \<mapsto> JString (defaultNodeType st)) else d7);
            d9 = (if \<not> truthy (get_prop d8 ''zIndex'')
                  then d8(''zIndex'' \<mapsto> JNumber (Fin 0)) else d8)
        in Inr d9)"

definition applyEdgeDefaults :: "sigma_settings \<Rightarrow> string \<Rightarrow> attrs \<Rightarrow> attrs" where
  "applyEdgeDefaults st key d0 =
     (let d1 = (if \<not> truthy (get_prop d0 ''color'')
                then d0(''color'' \<mapsto> JString (defaultEdgeColor st)) else d0);
          d2 = (if \<not> truthy (get_prop d1 ''label'') then d1(''label'' \<mapsto> JString []) else d1);
          d3 = (if \<not> truthy (get_prop d2 ''size'')
                then d2(''size'' \<mapsto> JNumber (Fin 0.5)) else d2);
          d4 = (if d3 ''hidden'' = None then d3(''hidden'' \<mapsto> JBool False) else d3);
          d5 = (if d4 ''forceLabel'' = None then d4(''forceLabel'' \<mapsto> JBool False) else d4);
          d6 = (if \<not> truthy (get_prop d5 ''type'') \<or> get_prop d5 ''type'' = JString []
                then d5(''type'' \<mapsto> JString (defaultEdgeType st)) else d5);
          d7 = (if \<not> truthy (get_prop d6 ''zIndex'')
                then d6(''zIndex'' \<mapsto> JNumber (Fin 0)) else d6)
      in d7)"

text \<open>A record with a numeric \<open>x\<close> and a numeric \<open>y\<close>.\<close>

definition has_numeric_position :: "attrs \<Rightarrow> bool" where
  "has_numeric_position d = (is_number (get_prop d ''x'') \<and> is_number (get_prop d ''y''))"

text \<open>
  A complete \<open>NodeDisplayData\<close> record: a numeric position, every other field present, the
  label a string or null, the size not falsy.
\<close>

definition complete_node_data :: "attrs \<Rightarrow> bool" where
  "complete_node_data d =
     (has_numeric_position d \<and> d ''color'' \<noteq> None \<and> d ''label'' \<noteq> None \<and>
      d ''size'' \<noteq> None \<and> d ''hidden'' \<noteq> None \<and> d ''highlighted'' \<noteq> None \<and>
      d ''forceLabel'' \<noteq> None \<and> d ''type'' \<noteq> None \<and> d ''zIndex'' \<noteq> None \<and>
      truthy (get_prop d ''size'') \<and>
      (case get_prop d ''label'' of JNull \<Rightarrow> True | JString str \<Rightarrow> True | _ \<Rightarrow> False))"

subsection \<open>Dimensions and matrices\<close>

definition getDimensions :: "sigma \<Rightarrow> dimensions" where
  "getDimensions s = \<lparr>dim_width = width s, dim_height = height s\<rparr>"

definition getGraphDimensions :: "sigma \<Rightarrow> dimensions" where
  "getGraphDimensions s =
     (let extent = (case customBBox s of Some b \<Rightarrow> b | None \<Rightarrow> nodeExtent s)
      in \<lparr>dim_width = num_or_else (js_sub (snd (bbox_x extent)) (fst (bbox_x extent))) (Fin 1),
          dim_height = num_or_else (js_sub (snd (bbox_y extent)) (fst (bbox_y extent))) (Fin 1)\<rparr>)"

text \<open>\<open>override.padding || this.getSetting("stagePadding") || 0\<close>\<close>

definition override_padding :: "sigma \<Rightarrow> coordinate_override \<Rightarrow> jsnum" where
  "override_padding s ov =
     (let fallback = num_or_else (stagePadding (settings s)) (Fin 0)
      in case ov_padding ov of Some p \<Rightarrow> num_or_else p fallback | None \<Rightarrow> fallback)"

text \<open>
  The call of \<open>matrixFromCamera\<close> that both conversions make when they recompute: every
  argument is the override's when the override's is truthy, the renderer's otherwise.
\<close>

definition override_matrix :: "helpers \<Rightarrow> sigma \<Rightarrow> coordinate_override \<Rightarrow> bool \<Rightarrow> matrix" where
  "override_matrix h s ov inverted =
     matrixFromCamera h
       (case ov_cameraState ov of Some st \<Rightarrow> st | None \<Rightarrow> getState (camera s))
       (case ov_viewportDimensions ov of Some d \<Rightarrow> d | None \<Rightarrow> getDimensions s)
       (case ov_graphDimensions ov of Some d \<Rightarrow> d | None \<Rightarrow> getGraphDimensions s)
       (override_padding s ov)
       inverted"

text \<open>
  The matrix that \<open>framedGraphToViewport\<close> multiplies the coordinates with: the constant
  \<open>matrix\<close> of the method.
\<close>

definition framedGraphToViewport_matrix :: "helpers \<Rightarrow> sigma \<Rightarrow> coordinate_override \<Rightarrow> matrix" where
  "framedGraphToViewport_matrix h s ov =
     (let recomputeMatrix =
            (ov_cameraState ov \<noteq> None \<or> ov_viewportDimensions ov \<noteq> None \<or>
             ov_graphDimensions ov \<noteq> None)
      in case ov_matrix ov of
           Some m \<Rightarrow> m
         | None \<Rightarrow> if recomputeMatrix then override_matrix h s ov False else matrix s)"

text \<open>
  The matrix that \<open>viewportToFramedGraph\<close> multiplies the coordinates with: the constant
  \<open>invMatrix\<close> of the method. The third disjunct of \<open>recomputeMatrix\<close> is
  \<open>!override.graphDimensions\<close> in the source, with a single negation.
\<close>

definition viewportToFramedGraph_invMatrix :: "helpers \<Rightarrow> sigma \<Rightarrow> coordinate_override \<Rightarrow> matrix" where
  "viewportToFramedGraph_invMatrix h s ov =
     (let recomputeMatrix =
            (ov_cameraState ov \<noteq> None \<or> ov_viewportDimensions ov \<noteq> None \<or>
             ov_graphDimensions ov = None)
      in case ov_matrix ov of
           Some m \<Rightarrow> m
         | None \<Rightarrow> if recomputeMatrix then override_matrix h s ov True else invMatrix s)"

text \<open>
  What the specification asks of both conversions: an overriding matrix verbatim; else,
  when the override has any other field, the matrix derived from every overridden value
  and from the renderer's values for the others; else the renderer's current matrix.
\<close>

definition spec_conversion_matrix ::
  "helpers \<Rightarrow> sigma \<Rightarrow> coordinate_override \<Rightarrow> bool \<Rightarrow> matrix" where
  "spec_conversion_matrix h s ov inverted =
     (case ov_matrix ov of
        Some m \<Rightarrow> m
      | None \<Rightarrow>
          if ov_cameraState ov \<noteq> None \<or> ov_viewportDimensions ov \<noteq> None \<or>
             ov_graphDimensions ov \<noteq> None \<or> ov_padding ov \<noteq> None
          then matrixFromCamera h
                 (case ov_cameraState ov of Some st \<Rightarrow> st | None \<Rightarrow> getState (camera s))
                 (case ov_viewportDimensions ov of Some d \<Rightarrow> d | None \<Rightarrow> getDimensions s)
                 (case ov_graphDimensions ov of Some d \<Rightarrow> d | None \<Rightarrow> getGraphDimensions s)
                 (case ov_padding ov of
                    Some p \<Rightarrow> p
                  | None \<Rightarrow> num_or_else (stagePadding (settings s)) (Fin 0))
                 inverted
          else (if inverted then invMatrix s else matrix s))"

subsection \<open>Scheduling\<close>

text \<open>\<open>_scheduleRefresh\<close>\<close>

definition private_scheduleRefresh :: "sigma \<Rightarrow> sigma" where
  "private_scheduleRefresh s =
     (if \<not> frame_truthy (renderFrame s)
      then (let (tok, s') = requestFrame s in s'\<lparr>renderFrame := Some tok\<rparr>)
      else s)"

definition scheduleRefresh :: "sigma \<Rightarrow> sigma" where
  "scheduleRefresh s = private_scheduleRefresh (s\<lparr>needToProcess := True\<rparr>)"

definition setCustomBBox :: "bbox option \<Rightarrow> sigma \<Rightarrow> sigma" where
  "setCustomBBox b s = private_scheduleRefresh (s\<lparr>customBBox := b\<rparr>)"

subsection \<open>Events\<close>

text \<open>
  \<open>on\<close> (or its alias \<open>addListener\<close>) of the event emitter, for a listener that makes one
  call, and \<open>emit\<close>: the event is logged, then the calls of the listeners registered for
  it when \<open>emit\<close> was entered run one after the other, each on the state the previous one
  left.
\<close>

definition addListener :: "string \<Rightarrow> listener_call \<Rightarrow> sigma \<Rightarrow> sigma" where
  "addListener name call s = s\<lparr>listeners := (listeners s)(name := listeners s name @ [call])\<rparr>"

fun run_listener :: "sigma \<Rightarrow> listener_call \<Rightarrow> sigma" where
  "run_listener s CallScheduleRefresh = scheduleRefresh s"
| "run_listener s (CallSetCustomBBox b) = setCustomBBox b s"

definition emit :: "string \<Rightarrow> sigma \<Rightarrow> sigma" where
  "emit name s = foldl run_listener (s\<lparr>trace := trace s @ [Emitted name]\<rparr>) (listeners s name)"

subsection \<open>Handlers of the graph's events\<close>

definition graphUpdate :: "sigma \<Rightarrow> sigma" where
  "graphUpdate s = private_scheduleRefresh (s\<lparr>needToProcess := True\<rparr>)"

definition softGraphUpdate :: "sigma \<Rightarrow> sigma" where
  "softGraphUpdate s = private_scheduleRefresh (s\<lparr>needToSoftProcess := True\<rparr>)"

definition dropNodeGraphUpdate :: "string \<Rightarrow> sigma \<Rightarrow> sigma" where
  "dropNodeGraphUpdate key s =
     (let s1 = s\<lparr>nodeDataCache := (nodeDataCache s)(key := None)\<rparr>;
          s2 = (if hoveredNode s1 = Some key then s1\<lparr>hoveredNode := None\<rparr> else s1)
      in graphUpdate s2)"

definition dropEdgeGraphUpdate :: "string \<Rightarrow> sigma \<Rightarrow> sigma" where
  "dropEdgeGraphUpdate key s =
     (let s1 = s\<lparr>edgeDataCache := (edgeDataCache s)(key := None)\<rparr>;
          s2 = (if hoveredEdge s1 = Some key then s1\<lparr>hoveredEdge := None\<rparr> else s1)
      in graphUpdate s2)"

definition clearEdgesGraphUpdate :: "sigma \<Rightarrow> sigma" where
  "clearEdgesGraphUpdate s = graphUpdate (s\<lparr>edgeDataCache := Map.empty, hoveredEdge := None\<rparr>)"

definition clearGraphUpdate :: "sigma \<Rightarrow> sigma" where
  "clearGraphUpdate s = clearEdgesGraphUpdate (s\<lparr>nodeDataCache := Map.empty, hoveredNode := None\<rparr>)"

text \<open>The events of the graph and the handler \<open>bindGraphHandlers\<close> binds to each.\<close>

datatype graph_event =
    NodeAdded
  | NodeDropped string
  | NodeAttributesUpdated
  | EachNodeAttributesUpdated
  | EdgeAdded
  | EdgeDropped string
  | EdgeAttributesUpdated
  | EachEdgeAttributesUpdated
  | EdgesCleared
  | Cleared

fun handle_graph_event :: "graph_event \<Rightarrow> sigma \<Rightarrow> sigma" where
  "handle_graph_event NodeAdded s = graphUpdate s"
| "handle_graph_event (NodeDropped key) s = dropNodeGraphUpdate key s"
| "handle_graph_event NodeAttributesUpdated s = softGraphUpdate s"
| "handle_graph_event EachNodeAttributesUpdated s = graphUpdate s"
| "handle_graph_event EdgeAdded s = graphUpdate s"
| "handle_graph_event (EdgeDropped key) s = dropEdgeGraphUpdate key s"
| "handle_graph_event EdgeAttributesUpdated s = softGraphUpdate s"
| "handle_graph_event EachEdgeAttributesUpdated s = graphUpdate s"
| "handle_graph_event EdgesCleared s = clearEdgesGraphUpdate s"
| "handle_graph_event Cleared s = clearGraphUpdate s"

subsection \<open>Processing\<close>

text \<open>
  The body of the first loop of \<open>process\<close>, for one node: the attributes are copied, the
  reducer, if any, replaces them, \<open>applyNodeDefaults\<close> resolves them or throws, and the
  record, normalised in place, is cached. The counts per program and the calls of the draw
  programs (\<open>allocate\<close>, \<open>process\<close>) act on the programs alone and are left out.
\<close>

definition resolve_node :: "helpers \<Rightarrow> string \<times> attrs \<Rightarrow> sigma \<Rightarrow> outcome" where
  "resolve_node h entry s =
     (let node = fst entry;
          attr0 = snd entry;
          attr = (case nodeReducer (settings s) of Some f \<Rightarrow> f node attr0 | None \<Rightarrow> attr0)
      in case applyNodeDefaults h (settings s) node attr of
           Inl e \<Rightarrow> (Some e, s)
         | Inr d \<Rightarrow>
             let d' = applyNormalization h (normalizationExtent s) d;
                 s1 = s\<lparr>nodeDataCache := (nodeDataCache s)(node \<mapsto> d')\<rparr>;
                 s2 = (if truthy (get_prop d' ''forceLabel'')
                       then s1\<lparr>nodesWithForcedLabels := nodesWithForcedLabels s1 @ [node]\<rparr>
                       else s1)
             in (None, s2))"

fun resolve_nodes :: "helpers \<Rightarrow> (string \<times> attrs) list \<Rightarrow> sigma \<Rightarrow> outcome" where
  "resolve_nodes h [] s = (None, s)"
| "resolve_nodes h (entry # rest) s = andThen (resolve_node h entry s) (resolve_nodes h rest)"

text \<open>
  The body of the second loop, for one node: the program of the node's type is looked up,
  and the node joins the highlighted set when it is highlighted and not hidden.
\<close>

definition dispatch_node :: "helpers \<Rightarrow> string \<Rightarrow> sigma \<Rightarrow> outcome" where
  "dispatch_node h node s =
     (case nodeDataCache s node of
        None \<Rightarrow> (Some (UndefinedDataError node), s)
      | Some d \<Rightarrow>
          if toString h (get_prop d ''type'') \<notin> set (nodePrograms s)
          then (Some (NodeProgramError (toString h (get_prop d ''type''))), s)
          else if truthy (get_prop d ''highlighted'') \<and> \<not> truthy (get_prop d ''hidden'')
          then (None, s\<lparr>highlightedNodes := insert node (highlightedNodes s)\<rparr>)
          else (None, s))"

fun dispatch_nodes :: "helpers \<Rightarrow> string list \<Rightarrow> sigma \<Rightarrow> outcome" where
  "dispatch_nodes h [] s = (None, s)"
| "dispatch_nodes h (node # rest) s = andThen (dispatch_node h node s) (dispatch_nodes h rest)"

text \<open>The body of the loop over the edges, for one edge.\<close>

definition resolve_edge :: "string \<times> attrs \<Rightarrow> sigma \<Rightarrow> sigma" where
  "resolve_edge entry s =
     (let edge = fst entry;
          attr0 = snd entry;
          attr = (case edgeReducer (settings s) of Some f \<Rightarrow> f edge attr0 | None \<Rightarrow> attr0);
          d = applyEdgeDefaults (settings s) edge attr;
          s1 = s\<lparr>edgeDataCache := (edgeDataCache s)(edge \<mapsto> d)\<rparr>
      in if truthy (get_prop d ''forceLabel'') \<and> \<not> truthy (get_prop d ''hidden'')
         then s1\<lparr>edgesWithForcedLabels := edgesWithForcedLabels s1 @ [edge]\<rparr>
         else s1)"

fun resolve_edges :: "(string \<times> attrs) list \<Rightarrow> sigma \<Rightarrow> sigma" where
  "resolve_edges [] s = s"
| "resolve_edges (entry # rest) s = resolve_edges rest (resolve_edge entry s)"

text \<open>
  \<open>process\<close>: the caches of the previous pass are reset, the extent and the normalisation
  are recomputed, then the three loops run. The loop over the programs between the first
  and the second loop only allocates their arrays (not when \<open>keepArrays\<close> is set), and its
  test of \<open>hasOwnProperty\<close> holds for every key it enumerates; the unused locals
  (\<open>dimensions\<close>, \<open>nullCameraMatrix\<close>) are left out.
\<close>

definition process :: "helpers \<Rightarrow> bool \<Rightarrow> sigma \<Rightarrow> outcome" where
  "process h keepArrays s =
     (let s0 = s\<lparr>trace := trace s @ [Processed keepArrays]\<rparr>;
          s1 = s0\<lparr>highlightedNodes := {},
                  nodeExtent := graphExtent h (graph s0),
                  nodesWithForcedLabels := [],
                  edgesWithForcedLabels := []\<rparr>;
          s2 = s1\<lparr>normalizationExtent :=
                    (case customBBox s1 of Some b \<Rightarrow> b | None \<Rightarrow> nodeExtent s1)\<rparr>;
          nodes = map fst (graph_nodes (graph s2))
      in andThen (resolve_nodes h (graph_nodes (graph s2)) s2)
           (\<lambda>s3. andThen
              (dispatch_nodes h
                 (if zIndex (settings s3) then zIndexOrder h (nodeDataCache s3) nodes else nodes) s3)
              (\<lambda>s4. (None, resolve_edges (graph_edges (graph s4)) s4))))"

subsection \<open>Rendering\<close>

definition resize :: "sigma \<Rightarrow> outcome" where
  "resize s =
     (let previousWidth = width s;
          previousHeight = height s;
          s1 = s\<lparr>width := Fin (real (containerWidth s)), height := Fin (real (containerHeight s))\<rparr>
      in if js_eq (width s1) (Fin 0) \<and> \<not> allowInvalidContainer (settings s1)
         then (Some ContainerWidthError, s1)
         else
           let s2 = (if js_eq (width s1) (Fin 0) then s1\<lparr>width := Fin 1\<rparr> else s1)
           in if js_eq (height s2) (Fin 0) \<and> \<not> allowInvalidContainer (settings s2)
              then (Some ContainerHeightError, s2)
              else
                let s3 = (if js_eq (height s2) (Fin 0) then s2\<lparr>height := Fin 1\<rparr> else s2)
                in if js_eq previousWidth (width s3) \<and> js_eq previousHeight (height s3)
                   then (None, s3)
                   else (None, emit ''resize'' s3))"

text \<open>
  \<open>render\<close>. Clearing the canvas, the cached \<open>cameraSizeRatio\<close>, the correction ratio and
  the calls of the draw programs act outside the modelled fields and are left out.
\<close>

definition render :: "helpers \<Rightarrow> sigma \<Rightarrow> outcome" where
  "render h s =
     (let s0 = emit ''beforeRender'' s;
          s1 = (case renderFrame s0 of
                  None \<Rightarrow> s0
                | Some tok \<Rightarrow>
                    if tok \<noteq> 0
                    then (cancelFrame tok s0)
                           \<lparr>renderFrame := None, needToProcess := False, needToSoftProcess := False\<rparr>
                    else s0)
      in andThen (resize s1)
           (\<lambda>s2. if length (graph_nodes (graph s2)) = 0 then (None, emit ''afterRender'' s2)
                 else
                   let cameraState = getState (camera s2);
                       viewportDimensions = getDimensions s2;
                       graphDimensions = getGraphDimensions s2;
                       padding = num_or_else (stagePadding (settings s2)) (Fin 0);
                       s3 = s2\<lparr>matrix :=
                                 matrixFromCamera h cameraState viewportDimensions graphDimensions
                                   padding False,
                               invMatrix :=
                                 matrixFromCamera h cameraState viewportDimensions graphDimensions
                                   padding True\<rparr>
                   in (None, emit ''afterRender'' s3)))"

text \<open>\<open>_refresh\<close>\<close>

definition private_refresh :: "helpers \<Rightarrow> sigma \<Rightarrow> outcome" where
  "private_refresh h s =
     andThen
       (if needToProcess s then process h False s
        else if needToSoftProcess s then process h True s
        else (None, s))
       (\<lambda>s1. render h (s1\<lparr>needToProcess := False, needToSoftProcess := False\<rparr>))"

definition refresh :: "helpers \<Rightarrow> sigma \<Rightarrow> outcome" where
  "refresh h s = private_refresh h (s\<lparr>needToProcess := True\<rparr>)"

text \<open>
  The callback of a frame, \<open>() => { this._refresh(); this.renderFrame = null; }\<close>, and the
  environment firing the oldest pending frame. With no frame pending nothing runs.
\<close>

definition frame_callback :: "helpers \<Rightarrow> sigma \<Rightarrow> outcome" where
  "frame_callback h s = andThen (private_refresh h s) (\<lambda>s1. (None, s1\<lparr>renderFrame := None\<rparr>))"

definition fire_frame :: "helpers \<Rightarrow> sigma \<Rightarrow> outcome" where
  "fire_frame h s =
     (case pendingFrames s of
        [] \<Rightarrow> (None, s)
      | tok # rest \<Rightarrow> frame_callback h (s\<lparr>pendingFrames := rest\<rparr>))"

subsection \<open>Construction\<close>

text \<open>\<open>validateSettings\<close> of src/settings.ts; the label density is a number by its type.\<close>

definition validateSettings :: "sigma_settings \<Rightarrow> error option" where
  "validateSettings st =
     (if js_lt (labelDensity st) (Fin 0) then Some LabelDensityError
      else case (minCameraRatio st, maxCameraRatio st) of
             (Some lo, Some hi) \<Rightarrow> if js_lt hi lo then Some CameraRatioError else None
           | _ \<Rightarrow> None)"

text \<open>A camera state as the partial state with all four fields.\<close>

definition as_partial :: "camera_state \<Rightarrow> partial_state" where
  "as_partial st =
     \<lparr>part_x = JNumber (state_x st), part_y = JNumber (state_y st),
      part_angle = JNumber (state_angle st), part_ratio = JNumber (state_ratio st)\<rparr>"

text \<open>
  \<open>handleSettingsUpdate\<close>. The listener that \<open>bindCameraHandlers\<close> binds to the camera's
  \<open>updated\<close> event calls \<open>_scheduleRefresh\<close>; it runs when \<open>setState\<close> emits.
\<close>

definition handleSettingsUpdate :: "sigma \<Rightarrow> sigma" where
  "handleSettingsUpdate s =
     (let c0 = (camera s)\<lparr>minRatio := minCameraRatio (settings s),
                          maxRatio := maxCameraRatio (settings s)\<rparr>;
          c1 = setState (validateState c0 (as_partial (getState c0))) c0;
          s1 = s\<lparr>camera := c1\<rparr>
      in if length (emitted c1) \<noteq> length (emitted c0) then private_scheduleRefresh s1 else s1)"

text \<open>
  The constructor, from the resolved settings, the graph and the size of the container:
  the field initialisers, then the body. The test of the container and the creation of
  the canvas are taken to succeed. A new renderer has no listener. Frame handles start at
  \<open>1\<close>.
\<close>

definition initial_fields :: "sigma_settings \<Rightarrow> graph_data \<Rightarrow> nat \<Rightarrow> nat \<Rightarrow> sigma" where
  "initial_fields st g cw ch =
     \<lparr>settings = st, graph = g, nodeDataCache = Map.empty, edgeDataCache = Map.empty,
      nodesWithForcedLabels = [], edgesWithForcedLabels = [],
      nodeExtent = \<lparr>bbox_x = (Fin 0, Fin 1), bbox_y = (Fin 0, Fin 1)\<rparr>,
      matrix = [Fin 1, Fin 0, Fin 0, Fin 0, Fin 1, Fin 0, Fin 0, Fin 0, Fin 1],
      invMatrix = [Fin 1, Fin 0, Fin 0, Fin 0, Fin 1, Fin 0, Fin 0, Fin 0, Fin 1],
      customBBox = None,
      normalizationExtent = \<lparr>bbox_x = (Fin 0, Fin 1), bbox_y = (Fin 0, Fin 1)\<rparr>,
      width = Fin 0, height = Fin 0, highlightedNodes = {},
      hoveredNode = None, hoveredEdge = None, renderFrame = None,
      needToProcess = False, needToSoftProcess = False,
      nodePrograms = [], camera = new_Camera,
      containerWidth = cw, containerHeight = ch,
      pendingFrames = [], nextHandle = 1, trace = [], listeners = (\<lambda>name. [])\<rparr>"

definition new_Sigma :: "helpers \<Rightarrow> sigma_settings \<Rightarrow> graph_data \<Rightarrow> nat \<Rightarrow> nat \<Rightarrow> outcome" where
  "new_Sigma h st g cw ch =
     (let s0 = initial_fields st g cw ch
      in case validateSettings st of
           Some e \<Rightarrow> (Some e, s0)
         | None \<Rightarrow>
             (case validateGraph h g of
                Some e \<Rightarrow> (Some e, s0)
              | None \<Rightarrow>
                  andThen (resize (s0\<lparr>nodePrograms := nodeProgramClasses st\<rparr>))
                    (\<lambda>s1. andThen (process h False (handleSettingsUpdate (s1\<lparr>camera := new_Camera\<rparr>)))
                             (render h))))"

text \<open>A run of scheduling requests: the public \<open>scheduleRefresh\<close> or the internal one.\<close>

datatype schedule_call = PublicSchedule | PrivateSchedule

fun apply_schedule_call :: "sigma \<Rightarrow> schedule_call \<Rightarrow> sigma" where
  "apply_schedule_call s PublicSchedule = scheduleRefresh s"
| "apply_schedule_call s PrivateSchedule = private_scheduleRefresh s"

definition schedule_calls :: "schedule_call list \<Rightarrow> sigma \<Rightarrow> sigma" where
  "schedule_calls calls s = foldl apply_schedule_call s calls"

text \<open>
  The scheduler's invariant: the stored handle, when truthy, is the one pending frame, and
  with no truthy handle no frame is pending; handles are positive and fresh.
\<close>

definition sched_inv :: "sigma \<Rightarrow> bool" where
  "sched_inv s =
     (0 < nextHandle s \<and>
      (case renderFrame s of
         None \<Rightarrow> pendingFrames s = []
       | Some tok \<Rightarrow> 0 < tok \<and> tok < nextHandle s \<and> pendingFrames s = [tok]))"

text \<open>How often an effect occurs in a log.\<close>

definition occurrences :: "(effect \<Rightarrow> bool) \<Rightarrow> effect list \<Rightarrow> nat" where
  "occurrences P es = length (filter P es)"

fun is_request :: "effect \<Rightarrow> bool" where
  "is_request (FrameRequested n) = True"
| "is_request e = False"

fun is_processed :: "effect \<Rightarrow> bool" where
  "is_processed (Processed k) = True"
| "is_processed e = False"

definition is_render :: "effect \<Rightarrow> bool" where
  "is_render e = (e = Emitted ''beforeRender'')"

subsection \<open>Definitions used to state the properties of the renderer\<close>

text \<open>\<open>DEFAULT_SETTINGS\<close> of src/settings.ts, and the result of resolving no setting.\<close>

definition DEFAULT_SETTINGS :: sigma_settings where
  "DEFAULT_SETTINGS =
     \<lparr>defaultNodeColor = ''#999'', defaultNodeType = ''circle'', defaultEdgeColor = ''#ccc'',
      defaultEdgeType = ''line'', stagePadding = Fin 30, labelDensity = Fin 1,
      nodeReducer = None, edgeReducer = None, zIndex = False,
      minCameraRatio = None, maxCameraRatio = None, allowInvalidContainer = False,
      nodeProgramClasses = []\<rparr>"

definition resolved_defaults :: sigma_settings where
  "resolved_defaults = DEFAULT_SETTINGS\<lparr>nodeProgramClasses := [''circle'']\<rparr>"

text \<open>The extent \<open>getGraphDimensions\<close> measures: the custom box when there is one.\<close>

definition current_extent :: "sigma \<Rightarrow> bbox" where
  "current_extent s = (case customBBox s of Some b \<Rightarrow> b | None \<Rightarrow> nodeExtent s)"

text \<open>
  The size of an axis as the specification words it: \<open>1\<close> when the extent is degenerate
  (its maximum equals its minimum), the maximum minus the minimum otherwise.
\<close>

definition spec_dimension :: "jsnum \<times> jsnum \<Rightarrow> jsnum" where
  "spec_dimension e = (if js_eq (snd e) (fst e) then Fin 1 else js_sub (snd e) (fst e))"

text \<open>The part of the state that scheduling acts on.\<close>

definition schedule_part :: "sigma \<Rightarrow> nat option \<times> nat list \<times> nat \<times> effect list" where
  "schedule_part s = (renderFrame s, pendingFrames s, nextHandle s, trace s)"

text \<open>
  Stand-ins for the absent helpers, for evaluating the model on concrete inputs. The one
  for \<open>validateGraph\<close> refuses a graph with a node whose \<open>x\<close> or \<open>y\<close> is not a finite number.
\<close>

fun finite_number :: "jsvalue \<Rightarrow> bool" where
  "finite_number (JNumber (Fin r)) = True"
| "finite_number v = False"

definition finite_position :: "string \<times> attrs \<Rightarrow> bool" where
  "finite_position entry =
     (finite_number (get_prop (snd entry) ''x'') \<and> finite_number (get_prop (snd entry) ''y''))"

definition plain_helpers :: helpers where
  "plain_helpers =
     \<lparr>matrixFromCamera = (\<lambda>st vd gd p i. [state_x st, state_y st, state_angle st, state_ratio st,
                                          dim_width vd, dim_height vd, dim_width gd, dim_height gd, p]),
      graphExtent = (\<lambda>g. \<lparr>bbox_x = (Fin 0, Fin 1), bbox_y = (Fin 0, Fin 1)\<rparr>),
      applyNormalization = (\<lambda>e d. d),
      zIndexOrder = (\<lambda>cache nodes. nodes),
      numberToString = (\<lambda>n. ''0''),
      validateGraph = (\<lambda>g. if list_all finite_position (graph_nodes g) then None
                           else Some GraphError)\<rparr>"

text \<open>The attributes of a node as \<open>applyNodeDefaults\<close> receives them, and the test it makes.\<close>

definition reduced_attributes :: "sigma_settings \<Rightarrow> string \<times> attrs \<Rightarrow> attrs" where
  "reduced_attributes st entry =
     (case nodeReducer st of Some f \<Rightarrow> f (fst entry) (snd entry) | None \<Rightarrow> snd entry)"

definition lacks_position :: "attrs \<Rightarrow> bool" where
  "lacks_position d = (d ''x'' = None \<or> d ''y'' = None)"

text \<open>
  The weaker invariant, which a renderer without listeners keeps also across an
  exception: at most one frame is pending, and it is the one whose handle is stored.
\<close>

definition frames_inv :: "sigma \<Rightarrow> bool" where
  "frames_inv s =
     (0 < nextHandle s \<and>
      (case renderFrame s of
         None \<Rightarrow> pendingFrames s = []
       | Some tok \<Rightarrow>
           0 < tok \<and> tok < nextHandle s \<and> (pendingFrames s = [tok] \<or> pendingFrames s = [])))"

text \<open>
  What happens to a renderer between two ticks: the graph changes and notifies, a client
  schedules or forces a refresh, sets the custom box or registers a listener, a pending
  frame fires. After an exception the state stays as the throwing method left it.
\<close>

datatype sigma_op =
    GraphChanged graph_data graph_event
  | Schedule schedule_call
  | Refresh
  | SetCustomBBox "bbox option"
  | AddListener string listener_call
  | FireFrame

fun apply_op :: "helpers \<Rightarrow> sigma_op \<Rightarrow> sigma \<Rightarrow> outcome" where
  "apply_op h (GraphChanged g e) s = (None, handle_graph_event e (s\<lparr>graph := g\<rparr>))"
| "apply_op h (Schedule c) s = (None, apply_schedule_call s c)"
| "apply_op h Refresh s = refresh h s"
| "apply_op h (SetCustomBBox b) s = (None, setCustomBBox b s)"
| "apply_op h (AddListener name call) s = (None, addListener name call s)"
| "apply_op h FireFrame s = fire_frame h s"

definition run_ops :: "helpers \<Rightarrow> sigma_op list \<Rightarrow> sigma \<Rightarrow> sigma" where
  "run_ops h ops s = foldl (\<lambda>s' op. snd (apply_op h op s')) s ops"

text \<open>The state of \<open>render\<close> just before it resizes, and what \<open>render\<close> does after.\<close>

definition before_resize :: "sigma \<Rightarrow> sigma" where
  "before_resize s =
     (let s0 = emit ''beforeRender'' s
      in case renderFrame s0 of
           None \<Rightarrow> s0
         | Some tok \<Rightarrow>
             if tok \<noteq> 0
             then (cancelFrame tok s0)
                    \<lparr>renderFrame := None, needToProcess := False, needToSoftProcess := False\<rparr>
             else s0)"

definition after_resize :: "helpers \<Rightarrow> sigma \<Rightarrow> outcome" where
  "after_resize h s2 =
     (if length (graph_nodes (graph s2)) = 0 then (None, emit ''afterRender'' s2)
      else (None, emit ''afterRender''
              (s2\<lparr>matrix := matrixFromCamera h (getState (camera s2)) (getDimensions s2)
                            (getGraphDimensions s2) (num_or_else (stagePadding (settings s2)) (Fin 0)) False,
                   invMatrix := matrixFromCamera h (getState (camera s2)) (getDimensions s2)
                            (getGraphDimensions s2) (num_or_else (stagePadding (settings s2)) (Fin 0)) True\<rparr>)))"

text \<open>The first step of \<open>_refresh\<close>: reprocess fully, softly, or not at all.\<close>

definition reprocess :: "helpers \<Rightarrow> sigma \<Rightarrow> outcome" where
  "reprocess h s =
     (if needToProcess s then process h False s
      else if needToSoftProcess s then process h True s
      else (None, s))"

text \<open>
  The part of the state that no modelled method but the constructor and \<open>on\<close> writes,
  and the renderers without listeners.
\<close>

definition static_part ::
  "sigma \<Rightarrow> sigma_settings \<times> string list \<times> nat \<times> nat \<times> (string \<Rightarrow> listener_call list)" where
  "static_part s =
     (settings s, nodePrograms s, containerWidth s, containerHeight s, listeners s)"

definition no_listeners :: "sigma \<Rightarrow> bool" where
  "no_listeners s = (listeners s = (\<lambda>name. []))"

text \<open>
  Graphs for concrete runs: a single node \<open>A\<close> with the given \<open>x\<close> and \<open>y\<close>; node \<open>A\<close> at
  the origin; and that graph after a node \<open>C\<close> without attributes was added.
\<close>

definition single_node_graph :: "jsvalue \<Rightarrow> jsvalue \<Rightarrow> graph_data" where
  "single_node_graph vx vy =
     \<lparr>graph_nodes = [(''A'', [''x'' \<mapsto> vx, ''y'' \<mapsto> vy])], graph_edges = []\<rparr>"

definition graph_A :: graph_data where
  "graph_A = single_node_graph (JNumber (Fin 0)) (JNumber (Fin 0))"

definition graph_AC :: graph_data where
  "graph_AC =
     \<lparr>graph_nodes = [(''A'', [''x'' \<mapsto> JNumber (Fin 0), ''y'' \<mapsto> JNumber (Fin 0)]),
                     (''C'', Map.empty)],
      graph_edges = []\<rparr>"

text \<open>A renderer constructed on \<open>graph_A\<close> in a container of 800 by 600.\<close>

definition renderer_A :: sigma where
  "renderer_A = snd (new_Sigma plain_helpers resolved_defaults graph_A 800 600)"

text \<open>
  The renderer on \<open>graph_A\<close> after a client registered a listener of \<open>afterRender\<close> that
  calls \<open>scheduleRefresh()\<close> and then called \<open>scheduleRefresh()\<close> itself.
\<close>

definition listening_renderer :: sigma where
  "listening_renderer =
     run_ops plain_helpers
       [AddListener ''afterRender'' CallScheduleRefresh, Schedule PublicSchedule] renderer_A"

text \<open>The renderer on \<open>graph_A\<close> after node \<open>C\<close> was added and the graph notified.\<close>

definition renderer_notified :: sigma where
  "renderer_notified = run_ops plain_helpers [GraphChanged graph_AC NodeAdded] renderer_A"



text \<open>A renderer that caches two nodes, \<open>A\<close> and \<open>B\<close>, and hovers \<open>A\<close>.\<close>

definition two_nodes :: sigma where
  "two_nodes =
     (initial_fields resolved_defaults
        \<lparr>graph_nodes = [(''B'', [''x'' \<mapsto> JNumber (Fin 10), ''y'' \<mapsto> JNumber (Fin 0)])],
         graph_edges = []\<rparr> 800 600)
     \<lparr>nodeDataCache := [''A'' \<mapsto> [''x'' \<mapsto> JNumber (Fin 0), ''y'' \<mapsto> JNumber (Fin 0)],
                        ''B'' \<mapsto> [''x'' \<mapsto> JNumber (Fin 1), ''y'' \<mapsto> JNumber (Fin 0)]],
      hoveredNode := Some ''A''\<rparr>"

section \<open>Properties of the camera\<close>

lemma js_lt_irrefl: "\<not> js_lt a a" by (cases a) auto

lemma js_eq_iff: "a \<noteq> NaN \<Longrightarrow> js_eq b a = (b = a)"
  by (auto simp: js_eq_def)

lemma gbr_spec: "getBoundedRatio c r = spec_clamp (minRatio c) (maxRatio c) r"
  by (simp add: getBoundedRatio_def spec_clamp_def split: option.splits)

lemma upd_x: "(case v of JNumber n \<Rightarrow> c\<lparr>cam_x := n\<rparr> | _ \<Rightarrow> c) = c\<lparr>cam_x := num_or v (cam_x c)\<rparr>"
  by (cases v) (simp_all add: num_or_def)
lemma upd_y: "(case v of JNumber n \<Rightarrow> c\<lparr>cam_y := n\<rparr> | _ \<Rightarrow> c) = c\<lparr>cam_y := num_or v (cam_y c)\<rparr>"
  by (cases v) (simp_all add: num_or_def)
lemma upd_angle: "(case v of JNumber n \<Rightarrow> c\<lparr>cam_angle := n\<rparr> | _ \<Rightarrow> c) = c\<lparr>cam_angle := num_or v (cam_angle c)\<rparr>"
  by (cases v) (simp_all add: num_or_def)
lemma upd_ratio: "(case v of JNumber n \<Rightarrow> c\<lparr>cam_ratio := n\<rparr> | _ \<Rightarrow> c) = c\<lparr>cam_ratio := num_or v (cam_ratio c)\<rparr>"
  by (cases v) (simp_all add: num_or_def)

lemma validate_x: "part_x (validateState c st) = (if is_number (part_x st) then part_x st else JUndefined)"
  by (cases "part_ratio st") (simp_all add: validateState_def Let_def)
lemma validate_y: "part_y (validateState c st) = (if is_number (part_y st) then part_y st else JUndefined)"
  by (cases "part_ratio st") (simp_all add: validateState_def Let_def)
lemma validate_angle: "part_angle (validateState c st) = (if is_number (part_angle st) then part_angle st else JUndefined)"
  by (cases "part_ratio st") (simp_all add: validateState_def Let_def)
lemma validate_ratio: "part_ratio (validateState c st) =
    (case part_ratio st of JNumber r \<Rightarrow> JNumber (getBoundedRatio c r) | _ \<Rightarrow> JUndefined)"
  by (cases "part_ratio st") (simp_all add: validateState_def Let_def)

lemma num_or_validated: "num_or (if is_number v then v else JUndefined) d = num_or v d"
  by (cases v) (simp_all add: num_or_def)

lemma setState_unfold:
  "enabled c \<Longrightarrow> setState st c =
    (if \<not> hasState (applied st c) (getState c)
     then (applied st c)\<lparr>emitted := emitted c @ [getState (applied st c)]\<rparr> else applied st c)"
proof -
  have r: "num_or (part_ratio (validateState (c\<lparr>previousState := Some (getState c)\<rparr>) st)) (cam_ratio c) =
      (case part_ratio st of JNumber r \<Rightarrow> getBoundedRatio c r | _ \<Rightarrow> cam_ratio c)"
    by (cases "part_ratio st") (simp_all add: validate_ratio num_or_def getBoundedRatio_def)
  assume "enabled c"
  then show ?thesis
    unfolding setState_def Let_def upd_x upd_y upd_angle upd_ratio applied_def
    by (simp add: validate_x validate_y validate_angle num_or_validated r)
qed

lemma getState_emitted_upd: "getState (c\<lparr>emitted := e\<rparr>) = getState c"
  by (simp add: getState_def)

lemma getState_setState:
  "enabled c \<Longrightarrow> getState (setState st c) = getState (applied st c)"
  by (simp add: setState_unfold getState_emitted_upd)

lemma hasState_eq: "hasState c st = state_strict_eq (getState c) st"
  by (auto simp: hasState_def state_strict_eq_def getState_def)

lemma setState_emitted:
  "enabled c \<Longrightarrow> emitted (setState st c) =
     emitted c @ (if state_strict_eq (getState (setState st c)) (getState c) then []
                  else [getState (setState st c)])"
  by (simp add: getState_setState) (simp add: setState_unfold hasState_eq applied_def)

lemma strict_eq_nan_free: "nan_free b \<Longrightarrow> state_strict_eq a b = (a = b)"
  by (cases a; cases b) (auto simp: state_strict_eq_def nan_free_def js_eq_def)

lemma num_or_unchanged: "field_unchanged v d \<Longrightarrow> num_or v d = d"
  by (cases v) (simp_all add: field_unchanged_def num_or_def)

lemma validated_equal_applied:
  assumes "validated_equal_current c st"
  shows "getState (applied st c) = getState c"
proof -
  from assms have x: "field_unchanged (if is_number (part_x st) then part_x st else JUndefined) (cam_x c)"
    and y: "field_unchanged (if is_number (part_y st) then part_y st else JUndefined) (cam_y c)"
    and a: "field_unchanged (if is_number (part_angle st) then part_angle st else JUndefined) (cam_angle c)"
    and r: "field_unchanged (case part_ratio st of JNumber r \<Rightarrow> JNumber (getBoundedRatio c r) | _ \<Rightarrow> JUndefined) (cam_ratio c)"
    by (simp_all add: validated_equal_current_def Let_def validate_x validate_y validate_angle validate_ratio)
  have x': "num_or (part_x st) (cam_x c) = cam_x c"
    using num_or_unchanged[OF x] by (simp add: num_or_validated)
  have y': "num_or (part_y st) (cam_y c) = cam_y c"
    using num_or_unchanged[OF y] by (simp add: num_or_validated)
  have a': "num_or (part_angle st) (cam_angle c) = cam_angle c"
    using num_or_unchanged[OF a] by (simp add: num_or_validated)
  have r': "(case part_ratio st of JNumber r \<Rightarrow> getBoundedRatio c r | _ \<Rightarrow> cam_ratio c) = cam_ratio c"
    using r by (cases "part_ratio st") (simp_all add: field_unchanged_def)
  show ?thesis by (simp add: applied_def getState_def x' y' a' r')
qed

subsection \<open>Notifications of \<open>setState\<close>\<close>

text \<open>
  Claim C1, as amended. On an enabled camera \<open>setState\<close> appends at most one payload to
  the log of \<open>updated\<close> notifications: none when every field of the resulting state is
  \<open>===\<close> to the same field of the state before the call, and exactly one, the resulting
  state, otherwise. When no field of the state before the call is \<open>NaN\<close>, one
  notification is emitted if and only if the resulting state differs from the state
  before the call, none if and only if the two states are equal, and in particular none
  when every validated field equals the current value.
\<close>

theorem setState_emits_iff_changed:
  assumes "enabled c"
  shows "emitted (setState st c) =
           emitted c @ (if state_strict_eq (getState (setState st c)) (getState c) then []
                        else [getState (setState st c)]) \<and>
         (nan_free (getState c) \<longrightarrow>
            (emitted (setState st c) = emitted c @ [getState (setState st c)]
               \<longleftrightarrow> getState (setState st c) \<noteq> getState c) \<and>
            (emitted (setState st c) = emitted c
               \<longleftrightarrow> getState (setState st c) = getState c) \<and>
            (validated_equal_current c st \<longrightarrow> emitted (setState st c) = emitted c))"
proof -
  note e = setState_emitted[OF assms, of st]
  have "validated_equal_current c st \<Longrightarrow> getState (setState st c) = getState c"
    using validated_equal_applied getState_setState[OF assms] by simp
  then show ?thesis
    using e by (auto simp: strict_eq_nan_free)
qed

lemma new_Camera_simps:
  "cam_x new_Camera = Fin 0.5" "cam_y new_Camera = Fin 0.5" "cam_angle new_Camera = Fin 0"
  "cam_ratio new_Camera = Fin 1" "minRatio new_Camera = None" "maxRatio new_Camera = None"
  "enabled new_Camera" "emitted new_Camera = []" "previousState new_Camera = Some default_state"
  by (simp_all add: new_Camera_def Let_def getState_def default_state_def)

text \<open>
  Claim C1 as stated fails on a camera that holds a \<open>NaN\<close>. After \<open>setState({x: NaN})\<close>
  on a fresh camera, \<open>setState({})\<close> supplies no field and leaves the state as it was, and
  still emits one notification: \<open>hasState\<close> compares \<open>NaN === NaN\<close>, which is false.
\<close>

theorem setState_nan_counterexample:
  "enabled (setState (empty_partial\<lparr>part_x := JNumber NaN\<rparr>) new_Camera) \<and>
   validated_equal_current (setState (empty_partial\<lparr>part_x := JNumber NaN\<rparr>) new_Camera) empty_partial \<and>
   getState (setState empty_partial (setState (empty_partial\<lparr>part_x := JNumber NaN\<rparr>) new_Camera)) =
     getState (setState (empty_partial\<lparr>part_x := JNumber NaN\<rparr>) new_Camera) \<and>
   emitted (setState empty_partial (setState (empty_partial\<lparr>part_x := JNumber NaN\<rparr>) new_Camera)) =
     emitted (setState (empty_partial\<lparr>part_x := JNumber NaN\<rparr>) new_Camera) @
       [getState (setState (empty_partial\<lparr>part_x := JNumber NaN\<rparr>) new_Camera)]"
  by (simp add: setState_def validateState_def validated_equal_current_def field_unchanged_def
      empty_partial_def new_Camera_def Let_def getState_def hasState_def js_eq_def)

text \<open>
  The theorem of C1 at a fresh camera: \<open>setState({ratio: 1})\<close> emits nothing and
  \<open>setState({x: 2})\<close> emits the new state once.
\<close>

theorem setState_emits_witness:
  "enabled new_Camera \<and> nan_free (getState new_Camera) \<and>
   validated_equal_current new_Camera (empty_partial\<lparr>part_ratio := JNumber (Fin 1)\<rparr>) \<and>
   emitted (setState (empty_partial\<lparr>part_ratio := JNumber (Fin 1)\<rparr>) new_Camera) = emitted new_Camera \<and>
   getState (setState (empty_partial\<lparr>part_x := JNumber (Fin 2)\<rparr>) new_Camera) \<noteq> getState new_Camera \<and>
   emitted (setState (empty_partial\<lparr>part_x := JNumber (Fin 2)\<rparr>) new_Camera) =
     emitted new_Camera @ [getState (setState (empty_partial\<lparr>part_x := JNumber (Fin 2)\<rparr>) new_Camera)]"
proof -
  have en: "enabled new_Camera" by (simp add: new_Camera_def Let_def)
  have nf: "nan_free (getState new_Camera)"
    by (simp add: nan_free_def getState_def new_Camera_def Let_def)
  have ve: "validated_equal_current new_Camera (empty_partial\<lparr>part_ratio := JNumber (Fin 1)\<rparr>)"
    by (simp add: validated_equal_current_def validateState_def field_unchanged_def
        empty_partial_def new_Camera_def Let_def getBoundedRatio_def)
  have ne: "getState (setState (empty_partial\<lparr>part_x := JNumber (Fin 2)\<rparr>) new_Camera) \<noteq> getState new_Camera"
    by (simp add: setState_def validateState_def empty_partial_def new_Camera_def Let_def
        getState_def hasState_def js_eq_def)
  from setState_emits_iff_changed[OF en, of "empty_partial\<lparr>part_ratio := JNumber (Fin 1)\<rparr>"] nf ve
  have a: "emitted (setState (empty_partial\<lparr>part_ratio := JNumber (Fin 1)\<rparr>) new_Camera) = emitted new_Camera"
    by blast
  from setState_emits_iff_changed[OF en, of "empty_partial\<lparr>part_x := JNumber (Fin 2)\<rparr>"] nf ne
  have b: "emitted (setState (empty_partial\<lparr>part_x := JNumber (Fin 2)\<rparr>) new_Camera) =
     emitted new_Camera @ [getState (setState (empty_partial\<lparr>part_x := JNumber (Fin 2)\<rparr>) new_Camera)]"
    by blast
  show ?thesis using en nf ve ne a b by blast
qed

subsection \<open>The clamp of the ratio\<close>

lemma clamp_inverted:
  "js_lt hi lo \<Longrightarrow> r \<noteq> NaN \<Longrightarrow> js_min (js_max r lo) hi = hi"
  by (cases hi; cases lo; cases r) (simp_all add: js_max_def js_min_def)

text \<open>
  Claim C9, as amended. \<open>getBoundedRatio\<close> returns \<open>min(max(ratio, minRatio), maxRatio)\<close>,
  each clamp applied only where its bound is a number, the lower bound first. When the
  bounds are inverted (\<open>maxRatio < minRatio\<close>) the result is \<open>maxRatio\<close> for every input
  ratio other than \<open>NaN\<close>; for \<open>NaN\<close> the result is \<open>NaN\<close>, whatever the bounds.
\<close>

theorem getBoundedRatio_clamp:
  "getBoundedRatio c r = spec_clamp (minRatio c) (maxRatio c) r \<and>
   (minRatio c = Some lo \<and> maxRatio c = Some hi \<and> js_lt hi lo \<and> r \<noteq> NaN
      \<longrightarrow> getBoundedRatio c r = hi) \<and>
   getBoundedRatio c NaN = NaN"
proof -
  have "getBoundedRatio c NaN = NaN"
    by (simp add: getBoundedRatio_def js_max_def js_min_def split: option.splits)
  then show ?thesis
    by (auto simp: gbr_spec spec_clamp_def clamp_inverted)
qed

text \<open>The theorem of C9 at the bounds \<open>[2, 1]\<close> and the ratio \<open>5\<close>: the result is \<open>1\<close>.\<close>

theorem getBoundedRatio_clamp_witness:
  "minRatio (new_Camera\<lparr>minRatio := Some (Fin 2), maxRatio := Some (Fin 1)\<rparr>) = Some (Fin 2) \<and>
   maxRatio (new_Camera\<lparr>minRatio := Some (Fin 2), maxRatio := Some (Fin 1)\<rparr>) = Some (Fin 1) \<and>
   js_lt (Fin 1) (Fin 2) \<and> Fin 5 \<noteq> NaN \<and>
   getBoundedRatio (new_Camera\<lparr>minRatio := Some (Fin 2), maxRatio := Some (Fin 1)\<rparr>) (Fin 5) = Fin 1"
proof -
  have h: "minRatio (new_Camera\<lparr>minRatio := Some (Fin 2), maxRatio := Some (Fin 1)\<rparr>) = Some (Fin 2) \<and>
   maxRatio (new_Camera\<lparr>minRatio := Some (Fin 2), maxRatio := Some (Fin 1)\<rparr>) = Some (Fin 1) \<and>
   js_lt (Fin 1) (Fin 2) \<and> Fin 5 \<noteq> NaN"
    by simp
  with getBoundedRatio_clamp[of "new_Camera\<lparr>minRatio := Some (Fin 2), maxRatio := Some (Fin 1)\<rparr>"
      "Fin 5" "Fin 2" "Fin 1"]
  show ?thesis by blast
qed

text \<open>
  Claim C9 as stated fails at the ratio \<open>NaN\<close>: with the bounds \<open>[2, 1]\<close>,
  \<open>Math.max(NaN, 2)\<close> is \<open>NaN\<close> and so is \<open>Math.min(NaN, 1)\<close>, not \<open>maxRatio\<close>.
\<close>

theorem getBoundedRatio_nan_counterexample:
  "js_lt (Fin 1) (Fin 2) \<and>
   getBoundedRatio (new_Camera\<lparr>minRatio := Some (Fin 2), maxRatio := Some (Fin 1)\<rparr>) NaN \<noteq> Fin 1"
  by (simp add: getBoundedRatio_def js_max_def js_min_def)

subsection \<open>The previous state\<close>

lemma previous_setState: "previousState c \<noteq> None \<Longrightarrow> previousState (setState st c) \<noteq> None"
proof (cases "enabled c")
  case True
  then show ?thesis by (simp add: setState_unfold applied_def)
next
  case False
  assume "previousState c \<noteq> None"
  with False show ?thesis by (simp add: setState_def)
qed

lemma previous_op: "previousState c \<noteq> None \<Longrightarrow> previousState (apply_camera_op c a) \<noteq> None"
proof (cases a)
  case (OpSetState p)
  assume "previousState c \<noteq> None"
  then have "previousState (setState p c) \<noteq> None" by (rule previous_setState)
  with OpSetState show ?thesis by simp
next
  case (OpUpdateState f)
  assume "previousState c \<noteq> None"
  then have "previousState (setState (f (getState c)) c) \<noteq> None" by (rule previous_setState)
  with OpUpdateState show ?thesis by (simp add: updateState_def)
qed (simp_all add: enable_def disable_def)

lemma previous_run: "previousState c \<noteq> None \<Longrightarrow> previousState (run_camera_ops ops c) \<noteq> None"
  unfolding run_camera_ops_def
proof (induction ops arbitrary: c)
  case Nil
  then show ?case by simp
next
  case (Cons a ops)
  have "previousState (apply_camera_op c a) \<noteq> None"
    using Cons.prems by (rule previous_op)
  then have "previousState (foldl apply_camera_op (apply_camera_op c a) ops) \<noteq> None"
    by (rule Cons.IH)
  then show ?case by simp
qed

lemma getPrevious_id: "getPreviousState c = previousState c"
  by (simp add: getPreviousState_def split: option.splits)

text \<open>
  Claim C8, as amended. On a freshly constructed camera \<open>getPreviousState()\<close> returns the
  default state, not null: the constructor stores the initial state as the previous one.
  After a \<open>setState\<close> on an enabled camera it returns the state that held immediately
  before that call. It returns null on no camera reached from a fresh one by
  \<open>setState\<close>, \<open>updateState\<close>, \<open>enable\<close>, \<open>disable\<close> and assignments of the bounds.
\<close>

theorem getPreviousState_never_null:
  "getPreviousState new_Camera = Some default_state \<and>
   (enabled c \<longrightarrow> getPreviousState (setState st c) = Some (getState c)) \<and>
   getPreviousState (run_camera_ops ops new_Camera) \<noteq> None"
proof -
  have "previousState (run_camera_ops ops new_Camera) \<noteq> None"
    by (rule previous_run) (simp add: new_Camera_simps)
  moreover have "enabled c \<Longrightarrow> previousState (setState st c) = Some (getState c)"
    by (simp add: setState_unfold applied_def)
  ultimately show ?thesis
    by (simp add: getPrevious_id new_Camera_simps)
qed

text \<open>
  Claim C8 as stated fails on the fresh camera: \<open>getPreviousState()\<close> is not null there.
\<close>

theorem getPreviousState_fresh_counterexample:
  "getPreviousState new_Camera \<noteq> None"
  by (simp add: getPreviousState_def new_Camera_def Let_def)

text \<open>The theorem of C8 at a fresh camera and \<open>setState({x: 2})\<close>.\<close>

theorem getPreviousState_witness:
  "enabled new_Camera \<and>
   getPreviousState (setState (empty_partial\<lparr>part_x := JNumber (Fin 2)\<rparr>) new_Camera) = Some (getState new_Camera)"
proof -
  have en: "enabled new_Camera" by (simp add: new_Camera_def Let_def)
  with getPreviousState_never_null[of new_Camera "empty_partial\<lparr>part_x := JNumber (Fin 2)\<rparr>" "[]"]
  show ?thesis by blast
qed

subsection \<open>Runs of \<open>setState\<close>\<close>

lemma setStates_Nil: "setStates [] c = c"
  by (simp add: setStates_def)

lemma setStates_Cons: "setStates (p # ps) c = setStates ps (setState p c)"
  by (simp add: setStates_def)

lemma setState_enabled: "enabled c \<Longrightarrow> enabled (setState st c)"
  by (simp add: setState_unfold applied_def)

lemma setState_bounds:
  "enabled c \<Longrightarrow> minRatio (setState st c) = minRatio c \<and> maxRatio (setState st c) = maxRatio c"
  by (simp add: setState_unfold applied_def)

lemma setState_fields:
  assumes "enabled c"
  shows "cam_x (setState st c) = num_or (part_x st) (cam_x c)"
    and "cam_y (setState st c) = num_or (part_y st) (cam_y c)"
    and "cam_angle (setState st c) = num_or (part_angle st) (cam_angle c)"
    and "cam_ratio (setState st c) =
           (case part_ratio st of JNumber r \<Rightarrow> getBoundedRatio c r | _ \<Rightarrow> cam_ratio c)"
  using assms by (simp_all add: setState_unfold applied_def)

lemma merge_field_Cons: "merge_field d (v # vs) = merge_field (num_or v d) vs"
  by (cases v; cases "last_number vs") (simp_all add: merge_field_def num_or_def)

lemma setStates_x:
  "enabled c \<Longrightarrow> cam_x (setStates ps c) = merge_field (cam_x c) (map part_x ps)"
proof (induction ps arbitrary: c)
  case Nil
  show ?case by (simp add: setStates_Nil merge_field_def)
next
  case (Cons p ps)
  from Cons.prems have "enabled (setState p c)" by (rule setState_enabled)
  then have "cam_x (setStates ps (setState p c)) = merge_field (cam_x (setState p c)) (map part_x ps)"
    by (rule Cons.IH)
  then show ?case
    by (simp add: setStates_Cons merge_field_Cons setState_fields(1)[OF Cons.prems])
qed

lemma setStates_y:
  "enabled c \<Longrightarrow> cam_y (setStates ps c) = merge_field (cam_y c) (map part_y ps)"
proof (induction ps arbitrary: c)
  case Nil
  show ?case by (simp add: setStates_Nil merge_field_def)
next
  case (Cons p ps)
  from Cons.prems have "enabled (setState p c)" by (rule setState_enabled)
  then have "cam_y (setStates ps (setState p c)) = merge_field (cam_y (setState p c)) (map part_y ps)"
    by (rule Cons.IH)
  then show ?case
    by (simp add: setStates_Cons merge_field_Cons setState_fields(2)[OF Cons.prems])
qed

lemma setStates_angle:
  "enabled c \<Longrightarrow> cam_angle (setStates ps c) = merge_field (cam_angle c) (map part_angle ps)"
proof (induction ps arbitrary: c)
  case Nil
  show ?case by (simp add: setStates_Nil merge_field_def)
next
  case (Cons p ps)
  from Cons.prems have "enabled (setState p c)" by (rule setState_enabled)
  then have "cam_angle (setStates ps (setState p c)) =
      merge_field (cam_angle (setState p c)) (map part_angle ps)"
    by (rule Cons.IH)
  then show ?case
    by (simp add: setStates_Cons merge_field_Cons setState_fields(3)[OF Cons.prems])
qed

lemma setStates_ratio:
  "enabled c \<Longrightarrow> cam_ratio (setStates ps c) =
     (case last_number (map part_ratio ps) of
        Some r \<Rightarrow> spec_clamp (minRatio c) (maxRatio c) r
      | None \<Rightarrow> cam_ratio c)"
proof (induction ps arbitrary: c)
  case Nil
  show ?case by (simp add: setStates_Nil)
next
  case (Cons p ps)
  from Cons.prems have en: "enabled (setState p c)" by (rule setState_enabled)
  have "cam_ratio (setStates ps (setState p c)) =
     (case last_number (map part_ratio ps) of
        Some r \<Rightarrow> spec_clamp (minRatio (setState p c)) (maxRatio (setState p c)) r
      | None \<Rightarrow> cam_ratio (setState p c))"
    using en by (rule Cons.IH)
  then show ?case
    by (cases "part_ratio p"; cases "last_number (map part_ratio ps)")
       (simp_all add: setStates_Cons setState_bounds[OF Cons.prems] setState_fields(4)[OF Cons.prems] gbr_spec)
qed

lemma clamp_within:
  "js_le a b \<Longrightarrow> r \<noteq> NaN \<Longrightarrow> within_bounds a b (js_min (js_max r a) b)"
  by (cases a; cases b; cases r) (simp_all add: js_le_def js_max_def js_min_def within_bounds_def)

text \<open>
  Claim C2, as amended. On a fresh camera with any bounds, \<open>getState()\<close> after a run of
  \<open>setState\<close> calls is the field-wise merge, over the default state, of the numeric
  fields the calls supplied, in order, every supplied ratio clamped to the bounds. When
  both bounds are set with \<open>minRatio <= maxRatio\<close>, the resulting ratio is within
  \<open>[minRatio, maxRatio]\<close> if the last numeric ratio supplied is not \<open>NaN\<close> or, when no
  call supplied a numeric ratio, if the default ratio \<open>1\<close> is itself within the bounds.
\<close>

theorem setStates_merge:
  "getState (setStates ps (new_Camera\<lparr>minRatio := lo, maxRatio := hi\<rparr>)) = spec_merge lo hi ps \<and>
   (lo = Some a \<and> hi = Some b \<and> js_le a b \<and>
    (case last_number (map part_ratio ps) of
       Some r \<Rightarrow> r \<noteq> NaN
     | None \<Rightarrow> within_bounds a b (state_ratio default_state))
    \<longrightarrow> within_bounds a b
          (state_ratio (getState (setStates ps (new_Camera\<lparr>minRatio := lo, maxRatio := hi\<rparr>)))))"
proof -
  let ?c = "new_Camera\<lparr>minRatio := lo, maxRatio := hi\<rparr>"
  have en: "enabled ?c" by (simp add: new_Camera_simps)
  have m: "getState (setStates ps ?c) = spec_merge lo hi ps"
    by (simp add: getState_def spec_merge_def setStates_x[OF en] setStates_y[OF en]
        setStates_angle[OF en] setStates_ratio[OF en] new_Camera_simps default_state_def
        split: option.split)
  have "within_bounds a b (state_ratio (spec_merge (Some a) (Some b) ps))"
    if "js_le a b"
      and "case last_number (map part_ratio ps) of Some r \<Rightarrow> r \<noteq> NaN
           | None \<Rightarrow> within_bounds a b (state_ratio default_state)"
    using that
    by (cases "last_number (map part_ratio ps)")
       (simp_all add: spec_merge_def spec_clamp_def clamp_within)
  with m show ?thesis by auto
qed

text \<open>
  Claim C2 as stated fails when no call supplies a ratio: with the bounds \<open>[2, 3]\<close>, after
  \<open>setState({x: 1})\<close> the ratio is still the default \<open>1\<close>, outside the bounds.
\<close>

theorem setStates_ratio_counterexample:
  "\<not> within_bounds (Fin 2) (Fin 3)
       (state_ratio (getState (setStates [empty_partial\<lparr>part_x := JNumber (Fin 1)\<rparr>]
          (new_Camera\<lparr>minRatio := Some (Fin 2), maxRatio := Some (Fin 3)\<rparr>))))"
  by (simp add: setStates_def setState_def validateState_def empty_partial_def new_Camera_def
      Let_def getState_def hasState_def js_eq_def within_bounds_def js_le_def)

text \<open>
  The theorem of C2 at the bounds \<open>[2, 3]\<close> and the calls \<open>setState({ratio: 7})\<close>,
  \<open>setState({})\<close>: the ratio is clamped to \<open>3\<close>.
\<close>

theorem setStates_merge_witness:
  "js_le (Fin 2) (Fin 3) \<and>
   last_number (map part_ratio [empty_partial\<lparr>part_ratio := JNumber (Fin 7)\<rparr>, empty_partial]) = Some (Fin 7) \<and>
   getState (setStates [empty_partial\<lparr>part_ratio := JNumber (Fin 7)\<rparr>, empty_partial]
      (new_Camera\<lparr>minRatio := Some (Fin 2), maxRatio := Some (Fin 3)\<rparr>)) =
     \<lparr>state_x = Fin 0.5, state_y = Fin 0.5, state_angle = Fin 0, state_ratio = Fin 3\<rparr> \<and>
   within_bounds (Fin 2) (Fin 3)
     (state_ratio (getState (setStates [empty_partial\<lparr>part_ratio := JNumber (Fin 7)\<rparr>, empty_partial]
        (new_Camera\<lparr>minRatio := Some (Fin 2), maxRatio := Some (Fin 3)\<rparr>))))"
proof -
  let ?ps = "[empty_partial\<lparr>part_ratio := JNumber (Fin 7)\<rparr>, empty_partial]"
  have h1: "js_le (Fin 2) (Fin 3)" by (simp add: js_le_def)
  have h2: "last_number (map part_ratio ?ps) = Some (Fin 7)"
    by (simp add: empty_partial_def)
  have h3: "spec_merge (Some (Fin 2)) (Some (Fin 3)) ?ps =
      \<lparr>state_x = Fin 0.5, state_y = Fin 0.5, state_angle = Fin 0, state_ratio = Fin 3\<rparr>"
    by (simp add: spec_merge_def merge_field_def empty_partial_def default_state_def
        spec_clamp_def js_max_def js_min_def)
  have h4: "case last_number (map part_ratio ?ps) of Some r \<Rightarrow> r \<noteq> NaN
            | None \<Rightarrow> within_bounds (Fin 2) (Fin 3) (state_ratio default_state)"
    unfolding h2 by simp
  note t = setStates_merge[where ps = ?ps and lo = "Some (Fin 2)" and hi = "Some (Fin 3)"
      and a = "Fin 2" and b = "Fin 3"]
  from t have m: "getState (setStates ?ps (new_Camera\<lparr>minRatio := Some (Fin 2), maxRatio := Some (Fin 3)\<rparr>)) =
      spec_merge (Some (Fin 2)) (Some (Fin 3)) ?ps"
    by (rule conjunct1)
  from t h1 h4 have w: "within_bounds (Fin 2) (Fin 3)
     (state_ratio (getState (setStates ?ps (new_Camera\<lparr>minRatio := Some (Fin 2), maxRatio := Some (Fin 3)\<rparr>))))"
    by blast
  from m h3 have m': "getState (setStates ?ps (new_Camera\<lparr>minRatio := Some (Fin 2), maxRatio := Some (Fin 3)\<rparr>)) =
      \<lparr>state_x = Fin 0.5, state_y = Fin 0.5, state_angle = Fin 0, state_ratio = Fin 3\<rparr>"
    by (rule trans)
  from h1 h2 m' w show ?thesis by blast
qed

section \<open>Properties of the renderer\<close>

subsection \<open>Graph dimensions and conversion matrices\<close>

lemma num_or_else_nonzero: "num_or_else a (Fin 1) \<noteq> Fin 0 \<and> num_or_else a (Fin 1) \<noteq> NaN"
  by (simp add: num_or_else_def num_truthy_def)

lemma js_sub_zero: "js_sub b a = Fin 0 \<longleftrightarrow> (\<exists>r. a = Fin r \<and> b = Fin r)"
  by (cases a; cases b) auto

lemma js_sub_nan: "js_sub b a = NaN \<longleftrightarrow> a = NaN \<or> b = NaN \<or> (a = PosInf \<and> b = PosInf) \<or> (a = NegInf \<and> b = NegInf)"
  by (cases a; cases b) auto

lemma axis_size:
  "num_or_else (js_sub (snd e) (fst e)) (Fin 1) =
     (if fst e = NaN \<or> snd e = NaN then Fin 1 else spec_dimension e)"
  by (cases "fst e"; cases "snd e")
     (simp_all add: num_or_else_def num_truthy_def spec_dimension_def js_eq_def)

lemma getGraphDimensions_fields:
  "dim_width (getGraphDimensions s) =
     num_or_else (js_sub (snd (bbox_x (current_extent s))) (fst (bbox_x (current_extent s)))) (Fin 1)"
  "dim_height (getGraphDimensions s) =
     num_or_else (js_sub (snd (bbox_y (current_extent s))) (fst (bbox_y (current_extent s)))) (Fin 1)"
  by (simp_all add: getGraphDimensions_def current_extent_def Let_def)

text \<open>
  Claim C10, as amended. For every node extent and every custom bounding box,
  \<open>getGraphDimensions\<close> returns neither a zero nor a \<open>NaN\<close> width or height. On an axis
  whose bounds are both not \<open>NaN\<close> the dimension is \<open>1\<close> when the extent is degenerate
  (its maximum equals its minimum) and the maximum minus the minimum otherwise; on an axis
  with a \<open>NaN\<close> bound the dimension is \<open>1\<close>.
\<close>

theorem getGraphDimensions_nonzero:
  "dim_width (getGraphDimensions s) \<noteq> Fin 0 \<and> dim_height (getGraphDimensions s) \<noteq> Fin 0 \<and>
   dim_width (getGraphDimensions s) \<noteq> NaN \<and> dim_height (getGraphDimensions s) \<noteq> NaN \<and>
   dim_width (getGraphDimensions s) =
     (if fst (bbox_x (current_extent s)) = NaN \<or> snd (bbox_x (current_extent s)) = NaN then Fin 1
      else spec_dimension (bbox_x (current_extent s))) \<and>
   dim_height (getGraphDimensions s) =
     (if fst (bbox_y (current_extent s)) = NaN \<or> snd (bbox_y (current_extent s)) = NaN then Fin 1
      else spec_dimension (bbox_y (current_extent s)))"
proof -
  have w: "dim_width (getGraphDimensions s) \<noteq> Fin 0 \<and> dim_width (getGraphDimensions s) \<noteq> NaN"
    unfolding getGraphDimensions_fields by (rule num_or_else_nonzero)
  have h: "dim_height (getGraphDimensions s) \<noteq> Fin 0 \<and> dim_height (getGraphDimensions s) \<noteq> NaN"
    unfolding getGraphDimensions_fields by (rule num_or_else_nonzero)
  have wv: "dim_width (getGraphDimensions s) =
     (if fst (bbox_x (current_extent s)) = NaN \<or> snd (bbox_x (current_extent s)) = NaN then Fin 1
      else spec_dimension (bbox_x (current_extent s)))"
    unfolding getGraphDimensions_fields by (rule axis_size)
  have hv: "dim_height (getGraphDimensions s) =
     (if fst (bbox_y (current_extent s)) = NaN \<or> snd (bbox_y (current_extent s)) = NaN then Fin 1
      else spec_dimension (bbox_y (current_extent s)))"
    unfolding getGraphDimensions_fields by (rule axis_size)
  from w h wv hv show ?thesis by blast
qed

text \<open>
  The theorem of C10 at the node extent \<open>x: [0, 10]\<close>, \<open>y: [0, 0]\<close>: the width is \<open>10\<close>
  and the degenerate height is \<open>1\<close>.
\<close>

theorem getGraphDimensions_witness:
  "getGraphDimensions
     ((initial_fields resolved_defaults graph_A 800 600)
        \<lparr>nodeExtent := \<lparr>bbox_x = (Fin 0, Fin 10), bbox_y = (Fin 0, Fin 0)\<rparr>\<rparr>) =
     \<lparr>dim_width = Fin 10, dim_height = Fin 1\<rparr>"
proof -
  let ?s = "(initial_fields resolved_defaults graph_A 800 600)
        \<lparr>nodeExtent := \<lparr>bbox_x = (Fin 0, Fin 10), bbox_y = (Fin 0, Fin 0)\<rparr>\<rparr>"
  have e: "current_extent ?s = \<lparr>bbox_x = (Fin 0, Fin 10), bbox_y = (Fin 0, Fin 0)\<rparr>"
    by (simp add: current_extent_def initial_fields_def)
  note t = getGraphDimensions_nonzero[of ?s, unfolded e]
  have w: "dim_width (getGraphDimensions ?s) = Fin 10"
    using t by (simp add: spec_dimension_def js_eq_def)
  have h: "dim_height (getGraphDimensions ?s) = Fin 1"
    using t by (simp add: spec_dimension_def js_eq_def)
  show ?thesis
    using w h by (cases "getGraphDimensions ?s") simp
qed

text \<open>
  Claim C10 as stated fails on a custom box with a \<open>NaN\<close> bound: the extent \<open>[NaN, 0]\<close> is
  not degenerate and its maximum minus its minimum is \<open>NaN\<close>, yet the width returned is
  \<open>1\<close>, since \<open>NaN || 1\<close> is \<open>1\<close>.
\<close>

theorem getGraphDimensions_nan_counterexample:
  "\<not> js_eq (Fin 0) NaN \<and>
   dim_width (getGraphDimensions
     ((initial_fields resolved_defaults \<lparr>graph_nodes = [], graph_edges = []\<rparr> 800 600)
        \<lparr>customBBox := Some \<lparr>bbox_x = (NaN, Fin 0), bbox_y = (Fin 0, Fin 1)\<rparr>\<rparr>)) = Fin 1 \<and>
   js_sub (Fin 0) NaN = NaN \<and>
   spec_dimension (NaN, Fin 0) \<noteq> Fin 1"
  by (simp add: getGraphDimensions_def initial_fields_def Let_def num_or_else_def num_truthy_def
      js_eq_def spec_dimension_def)



text \<open>An overriding matrix is used verbatim by both conversions.\<close>

lemma conversion_matrix_verbatim:
  "ov_matrix ov = Some m \<Longrightarrow>
     viewportToFramedGraph_invMatrix h s ov = m \<and> framedGraphToViewport_matrix h s ov = m"
  by (simp add: viewportToFramedGraph_invMatrix_def framedGraphToViewport_matrix_def Let_def)

text \<open>
  An override of the padding alone does not make \<open>framedGraphToViewport\<close> recompute: the
  padding is not among the fields that \<open>recomputeMatrix\<close> tests.
\<close>

lemma framedGraphToViewport_padding_only:
  "framedGraphToViewport_matrix h s (no_override\<lparr>ov_padding := Some p\<rparr>) = matrix s"
  by (simp add: framedGraphToViewport_matrix_def no_override_def Let_def)

text \<open>
  With stand-ins for the absent helpers, on the freshly initialised fields: the matrix the
  inverse conversion uses differs from the one the specification asks for.
\<close>

lemma viewportToFramedGraph_concrete:
  "viewportToFramedGraph_invMatrix plain_helpers
     (initial_fields resolved_defaults \<lparr>graph_nodes = [], graph_edges = []\<rparr> 800 600)
     (no_override\<lparr>ov_graphDimensions := Some \<lparr>dim_width = Fin 2, dim_height = Fin 2\<rparr>\<rparr>) \<noteq>
   spec_conversion_matrix plain_helpers
     (initial_fields resolved_defaults \<lparr>graph_nodes = [], graph_edges = []\<rparr> 800 600)
     (no_override\<lparr>ov_graphDimensions := Some \<lparr>dim_width = Fin 2, dim_height = Fin 2\<rparr>\<rparr>) True"
  by (simp add: viewportToFramedGraph_invMatrix_def spec_conversion_matrix_def no_override_def
      initial_fields_def plain_helpers_def Let_def getState_def new_Camera_def getDimensions_def)

subsection \<open>Dropping a node\<close>

lemma private_scheduleRefresh_other:
  "nodeDataCache (private_scheduleRefresh s) = nodeDataCache s"
  "edgeDataCache (private_scheduleRefresh s) = edgeDataCache s"
  "hoveredNode (private_scheduleRefresh s) = hoveredNode s"
  "hoveredEdge (private_scheduleRefresh s) = hoveredEdge s"
  "needToProcess (private_scheduleRefresh s) = needToProcess s"
  "needToSoftProcess (private_scheduleRefresh s) = needToSoftProcess s"
  "graph (private_scheduleRefresh s) = graph s"
  "settings (private_scheduleRefresh s) = settings s"
  by (simp_all add: private_scheduleRefresh_def requestFrame_def Let_def)

lemma occurrences_append: "occurrences P (xs @ ys) = occurrences P xs + occurrences P ys"
  by (simp add: occurrences_def)

lemma private_scheduleRefresh_processed:
  "occurrences is_processed (trace (private_scheduleRefresh s)) = occurrences is_processed (trace s)"
  by (simp add: private_scheduleRefresh_def requestFrame_def Let_def occurrences_def)

lemma private_scheduleRefresh_render:
  "occurrences is_render (trace (private_scheduleRefresh s)) = occurrences is_render (trace s)"
  by (simp add: private_scheduleRefresh_def requestFrame_def Let_def occurrences_def is_render_def)

lemma dropNode_unfold:
  "dropNodeGraphUpdate key s =
     private_scheduleRefresh
       (s\<lparr>nodeDataCache := (nodeDataCache s)(key := None),
          hoveredNode := (if hoveredNode s = Some key then None else hoveredNode s),
          needToProcess := True\<rparr>)"
  by (simp add: dropNodeGraphUpdate_def graphUpdate_def Let_def)

text \<open>
  Claim C7. The handler of a node-dropped event for a node removes that node's entry from
  the cache of node display data and leaves every other node's entry as it was; the
  hovered node becomes null when it was the dropped node and is unchanged otherwise; the
  cache of edge display data is unchanged. The handler itself does not reprocess: it
  marks that a full reprocess is needed and schedules a refresh.
\<close>

theorem dropNode_effect:
  "nodeDataCache (handle_graph_event (NodeDropped key) s) key = None \<and>
   (\<forall>other. other \<noteq> key \<longrightarrow>
      nodeDataCache (handle_graph_event (NodeDropped key) s) other = nodeDataCache s other) \<and>
   hoveredNode (handle_graph_event (NodeDropped key) s) =
     (if hoveredNode s = Some key then None else hoveredNode s) \<and>
   edgeDataCache (handle_graph_event (NodeDropped key) s) = edgeDataCache s \<and>
   occurrences is_processed (trace (handle_graph_event (NodeDropped key) s)) =
     occurrences is_processed (trace s) \<and>
   needToProcess (handle_graph_event (NodeDropped key) s)"
  by (simp add: dropNode_unfold private_scheduleRefresh_other private_scheduleRefresh_processed)

text \<open>
  The theorem of C7 on a renderer that caches \<open>A\<close> and \<open>B\<close> and hovers \<open>A\<close>: dropping
  \<open>A\<close> removes its entry, keeps the entry of \<open>B\<close> and clears the hovered node.
\<close>

theorem dropNode_effect_witness:
  "''B'' \<noteq> ''A'' \<and>
   nodeDataCache (handle_graph_event (NodeDropped ''A'') two_nodes) ''A'' = None \<and>
   nodeDataCache (handle_graph_event (NodeDropped ''A'') two_nodes) ''B'' = nodeDataCache two_nodes ''B'' \<and>
   nodeDataCache two_nodes ''B'' \<noteq> None \<and>
   hoveredNode two_nodes = Some ''A'' \<and>
   hoveredNode (handle_graph_event (NodeDropped ''A'') two_nodes) = None"
proof -
  have ne: "''B'' \<noteq> ''A''" by simp
  have b: "nodeDataCache two_nodes ''B'' \<noteq> None" by (simp add: two_nodes_def)
  have hv: "hoveredNode two_nodes = Some ''A''" by (simp add: two_nodes_def)
  note t = dropNode_effect[of "''A''" two_nodes]
  have 1: "nodeDataCache (handle_graph_event (NodeDropped ''A'') two_nodes) ''A'' = None"
    by (rule t[THEN conjunct1])
  have 2: "nodeDataCache (handle_graph_event (NodeDropped ''A'') two_nodes) ''B'' =
      nodeDataCache two_nodes ''B''"
    by (rule t[THEN conjunct2, THEN conjunct1, rule_format, OF ne])
  have "hoveredNode (handle_graph_event (NodeDropped ''A'') two_nodes) =
     (if hoveredNode two_nodes = Some ''A'' then None else hoveredNode two_nodes)"
    by (rule t[THEN conjunct2, THEN conjunct2, THEN conjunct1])
  then have 3: "hoveredNode (handle_graph_event (NodeDropped ''A'') two_nodes) = None"
    by (simp only: hv simp_thms if_True)
  show ?thesis
    by (intro conjI ne 1 2 b hv 3)
qed

subsection \<open>Node defaults\<close>

lemma applyNodeDefaults_missing:
  "d ''x'' = None \<or> d ''y'' = None \<Longrightarrow> applyNodeDefaults h st key d = Inl (NodePositionError key)"
  by (simp add: applyNodeDefaults_def)

subsection \<open>The processing loops\<close>

lemma andThen_simps:
  "andThen (None, s) f = f s"
  "andThen (Some e, s) f = (Some e, s)"
  by (simp_all add: andThen_def)

lemma andThen_fst_error: "fst r = Some e \<Longrightarrow> andThen r f = r"
  by (simp add: andThen_def)

lemma andThen_fst_ok: "fst r = None \<Longrightarrow> andThen r f = f (snd r)"
  by (simp add: andThen_def)

lemma resolve_node_error:
  "lacks_position (reduced_attributes (settings s) entry) \<Longrightarrow>
     resolve_node h entry s = (Some (NodePositionError (fst entry)), s)"
  by (simp add: resolve_node_def lacks_position_def reduced_attributes_def Let_def applyNodeDefaults_def)

lemma applyNodeDefaults_present:
  "\<not> lacks_position d \<Longrightarrow> \<exists>d'. applyNodeDefaults h st key d = Inr d'"
  by (simp add: applyNodeDefaults_def lacks_position_def Let_def)

lemma resolve_node_ok:
  "\<not> lacks_position (reduced_attributes (settings s) entry) \<Longrightarrow> fst (resolve_node h entry s) = None"
proof -
  assume a: "\<not> lacks_position (reduced_attributes (settings s) entry)"
  obtain d' where d: "applyNodeDefaults h (settings s) (fst entry) (reduced_attributes (settings s) entry) = Inr d'"
    using applyNodeDefaults_present[OF a] by blast
  have "applyNodeDefaults h (settings s) (fst entry)
          (case nodeReducer (settings s) of None \<Rightarrow> snd entry | Some f \<Rightarrow> f (fst entry) (snd entry)) = Inr d'"
    using d by (simp add: reduced_attributes_def)
  then show ?thesis
    by (simp add: resolve_node_def Let_def)
qed

lemma resolve_node_keeps:
  "settings (snd (resolve_node h entry s)) = settings s"
  "graph (snd (resolve_node h entry s)) = graph s"
  "schedule_part (snd (resolve_node h entry s)) = schedule_part s"
  "nodePrograms (snd (resolve_node h entry s)) = nodePrograms s"
  by (simp_all add: resolve_node_def Let_def schedule_part_def split: sum.split)

lemma resolve_nodes_keeps:
  "settings (snd (resolve_nodes h entries s)) = settings s \<and>
   graph (snd (resolve_nodes h entries s)) = graph s \<and>
   schedule_part (snd (resolve_nodes h entries s)) = schedule_part s \<and>
   nodePrograms (snd (resolve_nodes h entries s)) = nodePrograms s"
proof (induction entries arbitrary: s)
  case Nil
  show ?case by simp
next
  case (Cons entry rest)
  show ?case
  proof (cases "fst (resolve_node h entry s)")
    case None
    then show ?thesis
      using Cons.IH[of "snd (resolve_node h entry s)"]
      by (simp add: andThen_fst_ok resolve_node_keeps)
  next
    case (Some e)
    then show ?thesis
      by (simp add: andThen_fst_error resolve_node_keeps)
  qed
qed

lemma resolve_nodes_error:
  "find (\<lambda>entry. lacks_position (reduced_attributes (settings s) entry)) entries = Some bad \<Longrightarrow>
     fst (resolve_nodes h entries s) = Some (NodePositionError (fst bad))"
proof (induction entries arbitrary: s)
  case Nil
  then show ?case by simp
next
  case (Cons entry rest)
  show ?case
  proof (cases "lacks_position (reduced_attributes (settings s) entry)")
    case True
    with Cons.prems have "bad = entry" by simp
    with True show ?thesis by (simp add: resolve_node_error andThen_simps)
  next
    case False
    with Cons.prems have f: "find (\<lambda>entry. lacks_position (reduced_attributes (settings s) entry)) rest = Some bad"
      by simp
    have ok: "fst (resolve_node h entry s) = None" using False by (rule resolve_node_ok)
    have "fst (resolve_nodes h rest (snd (resolve_node h entry s))) = Some (NodePositionError (fst bad))"
      by (rule Cons.IH) (simp add: resolve_node_keeps f)
    then show ?thesis by (simp add: andThen_fst_ok ok)
  qed
qed

lemma resolve_nodes_ok:
  "find (\<lambda>entry. lacks_position (reduced_attributes (settings s) entry)) entries = None \<Longrightarrow>
     fst (resolve_nodes h entries s) = None"
proof (induction entries arbitrary: s)
  case Nil
  then show ?case by simp
next
  case (Cons entry rest)
  from Cons.prems have nl: "\<not> lacks_position (reduced_attributes (settings s) entry)"
    and f: "find (\<lambda>entry. lacks_position (reduced_attributes (settings s) entry)) rest = None"
    by (simp_all split: if_splits)
  have ok: "fst (resolve_node h entry s) = None" using nl by (rule resolve_node_ok)
  have "fst (resolve_nodes h rest (snd (resolve_node h entry s))) = None"
    by (rule Cons.IH) (simp add: resolve_node_keeps f)
  then show ?case by (simp add: andThen_fst_ok ok)
qed

lemma dispatch_node_keeps:
  "schedule_part (snd (dispatch_node h node s)) = schedule_part s"
  "graph (snd (dispatch_node h node s)) = graph s"
  "settings (snd (dispatch_node h node s)) = settings s"
  by (simp_all add: dispatch_node_def schedule_part_def split: option.split)

lemma dispatch_nodes_keeps:
  "schedule_part (snd (dispatch_nodes h nodes s)) = schedule_part s \<and>
   graph (snd (dispatch_nodes h nodes s)) = graph s \<and>
   settings (snd (dispatch_nodes h nodes s)) = settings s"
proof (induction nodes arbitrary: s)
  case Nil
  show ?case by simp
next
  case (Cons node rest)
  show ?case
  proof (cases "fst (dispatch_node h node s)")
    case None
    then show ?thesis
      using Cons.IH[of "snd (dispatch_node h node s)"]
      by (simp add: andThen_fst_ok dispatch_node_keeps)
  next
    case (Some e)
    then show ?thesis
      by (simp add: andThen_fst_error dispatch_node_keeps)
  qed
qed

lemma resolve_edge_keeps:
  "schedule_part (resolve_edge entry s) = schedule_part s"
  "settings (resolve_edge entry s) = settings s"
  "graph (resolve_edge entry s) = graph s"
  by (simp_all add: resolve_edge_def Let_def schedule_part_def)

lemma resolve_edges_keeps:
  "schedule_part (resolve_edges entries s) = schedule_part s \<and>
   settings (resolve_edges entries s) = settings s \<and> graph (resolve_edges entries s) = graph s"
  by (induction entries arbitrary: s) (simp_all add: resolve_edge_keeps)

subsection \<open>Processing\<close>

lemma andThen_snd_cases:
  "Q (snd r) \<Longrightarrow> (fst r = None \<Longrightarrow> Q (snd (f (snd r)))) \<Longrightarrow> Q (snd (andThen r f))"
  by (cases "fst r") (simp_all add: andThen_def)

lemma andThen_fst_None:
  "fst (andThen r f) = None \<longleftrightarrow> fst r = None \<and> fst (f (snd r)) = None"
  by (cases "fst r") (simp_all add: andThen_def)

lemma process_schedule_part:
  "schedule_part (snd (process h k s)) =
     (renderFrame s, pendingFrames s, nextHandle s, trace s @ [Processed k])"
  unfolding process_def Let_def
  apply (rule andThen_snd_cases)
   apply (simp add: resolve_nodes_keeps)
   apply (simp add: schedule_part_def)
  apply (rule andThen_snd_cases)
   apply (simp add: dispatch_nodes_keeps resolve_nodes_keeps)
   apply (simp add: schedule_part_def)
  apply (simp add: resolve_edges_keeps dispatch_nodes_keeps resolve_nodes_keeps)
  apply (simp add: schedule_part_def)
  done

lemma process_position_error:
  assumes "find (\<lambda>entry. lacks_position (reduced_attributes (settings s) entry))
             (graph_nodes (graph s)) = Some bad"
  shows "fst (process h k s) = Some (NodePositionError (fst bad))"
proof -
  let ?s2 = "s\<lparr>trace := trace s @ [Processed k], highlightedNodes := {},
               nodeExtent := graphExtent h (graph s), nodesWithForcedLabels := [],
               edgesWithForcedLabels := [],
               normalizationExtent := (case customBBox s of Some b \<Rightarrow> b
                                        | None \<Rightarrow> graphExtent h (graph s))\<rparr>"
  have "fst (resolve_nodes h (graph_nodes (graph s)) ?s2) = Some (NodePositionError (fst bad))"
    by (rule resolve_nodes_error) (simp add: assms)
  then show ?thesis
    by (simp add: process_def Let_def andThen_fst_error cong: option.case_cong)
qed

subsection \<open>Events\<close>

lemma emit_silent:
  "listeners s name = [] \<Longrightarrow> emit name s = s\<lparr>trace := trace s @ [Emitted name]\<rparr>"
  by (simp add: emit_def)

lemma no_listeners_silent: "no_listeners s \<Longrightarrow> listeners s name = []"
  by (simp add: no_listeners_def)

lemma psr_static:
  "static_part (private_scheduleRefresh s) = static_part s"
  by (simp add: private_scheduleRefresh_def requestFrame_def static_part_def)

lemma static_flags:
  "static_part (s\<lparr>needToProcess := a\<rparr>) = static_part s"
  "static_part (s\<lparr>needToProcess := a, needToSoftProcess := b\<rparr>) = static_part s"
  "static_part (s\<lparr>pendingFrames := p\<rparr>) = static_part s"
  "static_part (s\<lparr>renderFrame := r\<rparr>) = static_part s"
  "static_part (s\<lparr>camera := c\<rparr>) = static_part s"
  "static_part (s\<lparr>graph := g\<rparr>) = static_part s"
  "static_part (s\<lparr>width := w\<rparr>) = static_part s"
  "static_part (s\<lparr>height := w\<rparr>) = static_part s"
  "static_part (s\<lparr>matrix := m\<rparr>) = static_part s"
  "static_part (s\<lparr>invMatrix := m\<rparr>) = static_part s"
  "static_part (s\<lparr>trace := t\<rparr>) = static_part s"
  "static_part (s\<lparr>customBBox := bb\<rparr>) = static_part s"
  by (simp_all add: static_part_def)

lemma run_listener_static:
  "static_part (run_listener s c) = static_part s"
  by (cases c) (simp_all add: scheduleRefresh_def setCustomBBox_def psr_static static_flags)

lemma run_listener_graph:
  "graph (run_listener s c) = graph s"
  by (cases c) (simp_all add: scheduleRefresh_def setCustomBBox_def private_scheduleRefresh_other)

lemma run_listeners_static:
  "static_part (foldl run_listener s cs) = static_part s"
  "graph (foldl run_listener s cs) = graph s"
  by (induction cs arbitrary: s) (simp_all add: run_listener_static run_listener_graph)

lemma emit_static:
  "static_part (emit name s) = static_part s" "graph (emit name s) = graph s"
  by (simp_all add: emit_def run_listeners_static static_flags)

lemma no_listeners_static: "static_part s = static_part t \<Longrightarrow> no_listeners s = no_listeners t"
  by (simp add: static_part_def no_listeners_def)

subsection \<open>What the methods leave unchanged\<close>

lemma andThen_snd: "snd (andThen r f) = (if fst r = None then snd (f (snd r)) else snd r)"
  by (cases "fst r") (simp_all add: andThen_def)

lemma resolve_node_static: "static_part (snd (resolve_node h entry s)) = static_part s"
  by (simp add: resolve_node_def Let_def static_part_def split: sum.split)

lemma resolve_nodes_static: "static_part (snd (resolve_nodes h entries s)) = static_part s"
  by (induction entries arbitrary: s) (simp_all add: andThen_snd resolve_node_static)

lemma dispatch_node_static: "static_part (snd (dispatch_node h node s)) = static_part s"
  by (simp add: dispatch_node_def static_part_def split: option.split)

lemma dispatch_nodes_static: "static_part (snd (dispatch_nodes h nodes s)) = static_part s"
  by (induction nodes arbitrary: s) (simp_all add: andThen_snd dispatch_node_static)

lemma resolve_edge_static: "static_part (resolve_edge entry s) = static_part s"
  by (simp add: resolve_edge_def Let_def static_part_def)

lemma resolve_edges_static: "static_part (resolve_edges entries s) = static_part s"
  by (induction entries arbitrary: s) (simp_all add: resolve_edge_static)

lemma process_static: "static_part (snd (process h k s)) = static_part s"
  unfolding process_def Let_def
  by (simp add: andThen_snd resolve_nodes_static dispatch_nodes_static resolve_edges_static)
     (simp add: static_part_def)

lemma process_graph: "graph (snd (process h k s)) = graph s"
  unfolding process_def Let_def
  by (simp add: andThen_snd resolve_nodes_keeps dispatch_nodes_keeps resolve_edges_keeps)

lemma resize_static: "static_part (snd (resize s)) = static_part s" "graph (snd (resize s)) = graph s"
  by (simp_all add: resize_def Let_def emit_static static_flags)

lemma render_unfold: "render h s = andThen (resize (before_resize s)) (after_resize h)"
  unfolding render_def before_resize_def after_resize_def Let_def
  by (rule arg_cong[where f = "andThen _"]) (simp add: fun_eq_iff)

lemma before_resize_static:
  "static_part (before_resize s) = static_part s" "graph (before_resize s) = graph s"
  by (simp_all add: before_resize_def Let_def emit_static cancelFrame_def static_flags
      split: option.split)

lemma after_resize_static:
  "static_part (snd (after_resize h s)) = static_part s" "graph (snd (after_resize h s)) = graph s"
  by (simp_all add: after_resize_def emit_static static_flags)

lemma render_static:
  "static_part (snd (render h s)) = static_part s" "graph (snd (render h s)) = graph s"
  unfolding render_unfold
  by (simp_all add: andThen_snd resize_static before_resize_static after_resize_static)

lemma reprocess_static:
  "static_part (snd (reprocess h s)) = static_part s" "graph (snd (reprocess h s)) = graph s"
  by (simp_all add: reprocess_def process_static process_graph)

lemma private_refresh_unfold:
  "private_refresh h s =
     andThen (reprocess h s)
       (\<lambda>s1. render h (s1\<lparr>needToProcess := False, needToSoftProcess := False\<rparr>))"
  by (simp add: private_refresh_def reprocess_def)

lemma private_refresh_static:
  "static_part (snd (private_refresh h s)) = static_part s"
  "graph (snd (private_refresh h s)) = graph s"
  unfolding private_refresh_unfold
  by (simp_all add: andThen_snd reprocess_static render_static static_flags)

lemma handleSettingsUpdate_static:
  "static_part (handleSettingsUpdate s) = static_part s"
  "graph (handleSettingsUpdate s) = graph s"
  by (simp_all add: handleSettingsUpdate_def Let_def psr_static static_flags
      private_scheduleRefresh_other)

lemma no_listeners_kept:
  "no_listeners (before_resize s) = no_listeners s"
  "no_listeners (snd (resize s)) = no_listeners s"
  "no_listeners (snd (reprocess h s)) = no_listeners s"
  "no_listeners (s\<lparr>needToProcess := a, needToSoftProcess := b\<rparr>) = no_listeners s"
  "no_listeners (s\<lparr>needToProcess := a\<rparr>) = no_listeners s"
  "no_listeners (s\<lparr>pendingFrames := p\<rparr>) = no_listeners s"
  "no_listeners (s\<lparr>graph := g\<rparr>) = no_listeners s"
  "no_listeners (s\<lparr>camera := c\<rparr>) = no_listeners s"
  "no_listeners (snd (process h k s)) = no_listeners s"
  "no_listeners (snd (render h s)) = no_listeners s"
  "no_listeners (snd (private_refresh h s)) = no_listeners s"
  by (rule no_listeners_static,
      simp add: before_resize_static resize_static reprocess_static static_flags process_static
        render_static private_refresh_static)+

subsection \<open>Resizing and rendering without listeners\<close>

lemma occurrences_snoc: "occurrences P (es @ [e]) = occurrences P es + (if P e then 1 else 0)"
  by (simp add: occurrences_def)

lemma resize_frames:
  assumes "listeners s ''resize'' = []"
  shows "renderFrame (snd (resize s)) = renderFrame s"
    and "pendingFrames (snd (resize s)) = pendingFrames s"
    and "nextHandle (snd (resize s)) = nextHandle s"
  using assms by (simp_all add: resize_def Let_def emit_silent)

lemma resize_trace:
  assumes "listeners s ''resize'' = []"
  shows "trace (snd (resize s)) = trace s \<or> trace (snd (resize s)) = trace s @ [Emitted ''resize'']"
  using assms by (simp add: resize_def Let_def emit_silent)

lemma resize_counts:
  assumes "listeners s ''resize'' = []"
  shows "occurrences is_render (trace (snd (resize s))) = occurrences is_render (trace s)"
    and "occurrences is_processed (trace (snd (resize s))) = occurrences is_processed (trace s)"
    and "occurrences is_request (trace (snd (resize s))) = occurrences is_request (trace s)"
  using resize_trace[OF assms] by (auto simp: occurrences_snoc is_render_def)

lemma occurrences_simps:
  "occurrences P [] = 0"
  "occurrences P (e # es) = (if P e then 1 else 0) + occurrences P es"
  "occurrences P (es @ fs) = occurrences P es + occurrences P fs"
  by (simp_all add: occurrences_def)

lemma before_resize_frames:
  assumes "listeners s ''beforeRender'' = []"
  shows "renderFrame (before_resize s) = (if frame_truthy (renderFrame s) then None else renderFrame s)"
    and "pendingFrames (before_resize s) =
     (case renderFrame s of
        Some tok \<Rightarrow> if tok \<noteq> 0 then removeAll tok (pendingFrames s) else pendingFrames s
      | None \<Rightarrow> pendingFrames s)"
    and "nextHandle (before_resize s) = nextHandle s"
  using assms
  by (simp_all add: before_resize_def Let_def emit_silent cancelFrame_def frame_truthy_def
      split: option.split)

lemma before_resize_counts:
  assumes "listeners s ''beforeRender'' = []"
  shows "occurrences is_render (trace (before_resize s)) = occurrences is_render (trace s) + 1"
    and "occurrences is_processed (trace (before_resize s)) = occurrences is_processed (trace s)"
    and "occurrences is_request (trace (before_resize s)) = occurrences is_request (trace s)"
  using assms
  by (simp_all add: before_resize_def Let_def emit_silent cancelFrame_def occurrences_simps
      is_render_def split: option.split)

lemma after_resize_ok: "fst (after_resize h s) = None"
  by (simp add: after_resize_def)

lemma after_resize_frames:
  assumes "listeners s ''afterRender'' = []"
  shows "renderFrame (snd (after_resize h s)) = renderFrame s"
    and "pendingFrames (snd (after_resize h s)) = pendingFrames s"
    and "nextHandle (snd (after_resize h s)) = nextHandle s"
  using assms by (simp_all add: after_resize_def emit_silent)

lemma after_resize_counts:
  assumes "listeners s ''afterRender'' = []"
  shows "occurrences is_render (trace (snd (after_resize h s))) = occurrences is_render (trace s)"
    and "occurrences is_processed (trace (snd (after_resize h s))) = occurrences is_processed (trace s)"
    and "occurrences is_request (trace (snd (after_resize h s))) = occurrences is_request (trace s)"
  using assms by (simp_all add: after_resize_def emit_silent occurrences_snoc is_render_def)

lemma render_frames:
  assumes "no_listeners s"
  shows "renderFrame (snd (render h s)) = (if frame_truthy (renderFrame s) then None else renderFrame s)"
    and "pendingFrames (snd (render h s)) =
     (case renderFrame s of
        Some tok \<Rightarrow> if tok \<noteq> 0 then removeAll tok (pendingFrames s) else pendingFrames s
      | None \<Rightarrow> pendingFrames s)"
    and "nextHandle (snd (render h s)) = nextHandle s"
proof -
  have b: "listeners s ''beforeRender'' = []" using assms by (rule no_listeners_silent)
  have r: "listeners (before_resize s) ''resize'' = []"
    using assms by (intro no_listeners_silent) (simp add: no_listeners_kept)
  have a: "listeners (snd (resize (before_resize s))) ''afterRender'' = []"
    using assms by (intro no_listeners_silent) (simp add: no_listeners_kept)
  show "renderFrame (snd (render h s)) = (if frame_truthy (renderFrame s) then None else renderFrame s)"
    and "pendingFrames (snd (render h s)) =
     (case renderFrame s of
        Some tok \<Rightarrow> if tok \<noteq> 0 then removeAll tok (pendingFrames s) else pendingFrames s
      | None \<Rightarrow> pendingFrames s)"
    and "nextHandle (snd (render h s)) = nextHandle s"
    unfolding render_unfold
    by (simp_all add: andThen_snd resize_frames[OF r] after_resize_frames[OF a]
        before_resize_frames[OF b])
qed

lemma render_counts:
  assumes "no_listeners s"
  shows "occurrences is_render (trace (snd (render h s))) = occurrences is_render (trace s) + 1"
    and "occurrences is_processed (trace (snd (render h s))) = occurrences is_processed (trace s)"
    and "occurrences is_request (trace (snd (render h s))) = occurrences is_request (trace s)"
proof -
  have b: "listeners s ''beforeRender'' = []" using assms by (rule no_listeners_silent)
  have r: "listeners (before_resize s) ''resize'' = []"
    using assms by (intro no_listeners_silent) (simp add: no_listeners_kept)
  have a: "listeners (snd (resize (before_resize s))) ''afterRender'' = []"
    using assms by (intro no_listeners_silent) (simp add: no_listeners_kept)
  show "occurrences is_render (trace (snd (render h s))) = occurrences is_render (trace s) + 1"
    and "occurrences is_processed (trace (snd (render h s))) = occurrences is_processed (trace s)"
    and "occurrences is_request (trace (snd (render h s))) = occurrences is_request (trace s)"
    unfolding render_unfold
    by (simp_all add: andThen_snd resize_counts[OF r] after_resize_counts[OF a]
        before_resize_counts[OF b])
qed

lemma render_ok: "fst (render h s) = None \<longleftrightarrow> fst (resize (before_resize s)) = None"
  unfolding render_unfold by (simp add: andThen_fst_None after_resize_ok)

lemma process_frames:
  "renderFrame (snd (process h k s)) = renderFrame s"
  "pendingFrames (snd (process h k s)) = pendingFrames s"
  "nextHandle (snd (process h k s)) = nextHandle s"
  "trace (snd (process h k s)) = trace s @ [Processed k]"
  using process_schedule_part[of h k s] by (simp_all add: schedule_part_def)

lemma process_counts:
  "occurrences is_render (trace (snd (process h k s))) = occurrences is_render (trace s)"
  "occurrences is_processed (trace (snd (process h k s))) = occurrences is_processed (trace s) + 1"
  "occurrences is_request (trace (snd (process h k s))) = occurrences is_request (trace s)"
  by (simp_all add: process_frames occurrences_snoc is_render_def)

lemma reprocess_frames:
  "renderFrame (snd (reprocess h s)) = renderFrame s"
  "pendingFrames (snd (reprocess h s)) = pendingFrames s"
  "nextHandle (snd (reprocess h s)) = nextHandle s"
  by (simp_all add: reprocess_def process_frames)

lemma reprocess_counts:
  "occurrences is_render (trace (snd (reprocess h s))) = occurrences is_render (trace s)"
  "occurrences is_processed (trace (snd (reprocess h s))) =
     occurrences is_processed (trace s) + (if needToProcess s \<or> needToSoftProcess s then 1 else 0)"
  "occurrences is_request (trace (snd (reprocess h s))) = occurrences is_request (trace s)"
  by (simp_all add: reprocess_def process_counts)

lemma private_refresh_counts:
  assumes "no_listeners s"
  shows "occurrences is_processed (trace (snd (private_refresh h s))) =
     occurrences is_processed (trace s) + (if needToProcess s \<or> needToSoftProcess s then 1 else 0)"
    and "occurrences is_request (trace (snd (private_refresh h s))) = occurrences is_request (trace s)"
    and "occurrences is_render (trace (snd (private_refresh h s))) =
     occurrences is_render (trace s) + (if fst (reprocess h s) = None then 1 else 0)"
proof -
  have q: "no_listeners ((snd (reprocess h s))\<lparr>needToProcess := False, needToSoftProcess := False\<rparr>)"
    using assms by (simp add: no_listeners_kept)
  show "occurrences is_processed (trace (snd (private_refresh h s))) =
     occurrences is_processed (trace s) + (if needToProcess s \<or> needToSoftProcess s then 1 else 0)"
    and "occurrences is_request (trace (snd (private_refresh h s))) = occurrences is_request (trace s)"
    and "occurrences is_render (trace (snd (private_refresh h s))) =
     occurrences is_render (trace s) + (if fst (reprocess h s) = None then 1 else 0)"
    unfolding private_refresh_unfold
    by (simp_all add: andThen_snd reprocess_counts render_counts[OF q])
qed

lemma private_refresh_frames:
  assumes "no_listeners s"
  shows "nextHandle (snd (private_refresh h s)) = nextHandle s"
    and "pendingFrames s = [] \<Longrightarrow> pendingFrames (snd (private_refresh h s)) = []"
    and "fst (private_refresh h s) = None \<Longrightarrow> renderFrame s \<noteq> Some 0
     \<Longrightarrow> renderFrame (snd (private_refresh h s)) = None"
proof -
  have q: "no_listeners ((snd (reprocess h s))\<lparr>needToProcess := False, needToSoftProcess := False\<rparr>)"
    using assms by (simp add: no_listeners_kept)
  show "nextHandle (snd (private_refresh h s)) = nextHandle s"
    and "pendingFrames s = [] \<Longrightarrow> pendingFrames (snd (private_refresh h s)) = []"
    and "fst (private_refresh h s) = None \<Longrightarrow> renderFrame s \<noteq> Some 0
     \<Longrightarrow> renderFrame (snd (private_refresh h s)) = None"
    unfolding private_refresh_unfold
    by (auto simp: andThen_snd andThen_fst_None reprocess_frames render_frames[OF q]
        frame_truthy_def split: option.split)
qed

subsection \<open>Scheduling\<close>

lemma psr_idle:
  "renderFrame s = None \<Longrightarrow>
     private_scheduleRefresh s =
       s\<lparr>pendingFrames := pendingFrames s @ [nextHandle s], nextHandle := Suc (nextHandle s),
         trace := trace s @ [FrameRequested (nextHandle s)], renderFrame := Some (nextHandle s)\<rparr>"
  by (simp add: private_scheduleRefresh_def frame_truthy_def requestFrame_def)

lemma psr_pending:
  "renderFrame s = Some tok \<Longrightarrow> 0 < tok \<Longrightarrow> private_scheduleRefresh s = s"
  by (simp add: private_scheduleRefresh_def frame_truthy_def)

lemma sched_inv_flags:
  "sched_inv (s\<lparr>needToProcess := b\<rparr>) = sched_inv s"
  "sched_inv (s\<lparr>needToSoftProcess := b\<rparr>) = sched_inv s"
  "frames_inv (s\<lparr>needToProcess := b\<rparr>) = frames_inv s"
  "frames_inv (s\<lparr>needToSoftProcess := b\<rparr>) = frames_inv s"
  by (simp_all add: sched_inv_def frames_inv_def split: option.split)

lemma psr_step:
  assumes "sched_inv s"
  shows "sched_inv (private_scheduleRefresh s) \<and>
         length (pendingFrames (private_scheduleRefresh s)) = 1 \<and>
         renderFrame (private_scheduleRefresh s) \<noteq> None \<and>
         (renderFrame s \<noteq> None \<longrightarrow> private_scheduleRefresh s = s) \<and>
         occurrences is_request (trace (private_scheduleRefresh s)) =
           occurrences is_request (trace s) + (if renderFrame s = None then 1 else 0)"
proof (cases "renderFrame s")
  case None
  with assms show ?thesis
    by (simp add: psr_idle sched_inv_def occurrences_simps)
next
  case (Some tok)
  with assms have "0 < tok" and "pendingFrames s = [tok]" by (simp_all add: sched_inv_def)
  with Some assms show ?thesis by (simp add: psr_pending)
qed

lemma schedule_call_step:
  assumes "sched_inv s"
  shows "sched_inv (apply_schedule_call s c) \<and>
         length (pendingFrames (apply_schedule_call s c)) = 1 \<and>
         renderFrame (apply_schedule_call s c) \<noteq> None \<and>
         (renderFrame s \<noteq> None \<longrightarrow> schedule_part (apply_schedule_call s c) = schedule_part s) \<and>
         occurrences is_request (trace (apply_schedule_call s c)) =
           occurrences is_request (trace s) + (if renderFrame s = None then 1 else 0) \<and>
         (needToProcess s \<or> c = PublicSchedule \<longrightarrow> needToProcess (apply_schedule_call s c))"
proof (cases c)
  case PublicSchedule
  have i: "sched_inv (s\<lparr>needToProcess := True\<rparr>)" using assms by (simp add: sched_inv_flags)
  have n: "needToProcess (private_scheduleRefresh (s\<lparr>needToProcess := True\<rparr>))"
    by (simp add: private_scheduleRefresh_other)
  show ?thesis
    using psr_step[OF i] n PublicSchedule
    by (auto simp: scheduleRefresh_def schedule_part_def)
next
  case PrivateSchedule
  show ?thesis
    using psr_step[OF assms] PrivateSchedule
    by (auto simp: schedule_part_def private_scheduleRefresh_other)
qed

lemma schedule_calls_Cons: "schedule_calls (c # cs) s = schedule_calls cs (apply_schedule_call s c)"
  by (simp add: schedule_calls_def)

lemma schedule_calls_Nil: "schedule_calls [] s = s"
  by (simp add: schedule_calls_def)

lemma schedule_calls_pending:
  "sched_inv s \<Longrightarrow> renderFrame s \<noteq> None \<Longrightarrow>
     sched_inv (schedule_calls cs s) \<and> renderFrame (schedule_calls cs s) \<noteq> None \<and>
     schedule_part (schedule_calls cs s) = schedule_part s \<and>
     (needToProcess s \<or> PublicSchedule \<in> set cs \<longrightarrow> needToProcess (schedule_calls cs s))"
proof (induction cs arbitrary: s)
  case Nil
  then show ?case by (simp add: schedule_calls_Nil)
next
  case (Cons c cs)
  note st = schedule_call_step[OF Cons.prems(1), of c]
  from st Cons.prems(2) have sp: "schedule_part (apply_schedule_call s c) = schedule_part s" by blast
  from st have i: "sched_inv (apply_schedule_call s c)"
    and r: "renderFrame (apply_schedule_call s c) \<noteq> None" by blast+
  from st have n: "needToProcess s \<or> c = PublicSchedule \<Longrightarrow> needToProcess (apply_schedule_call s c)"
    by blast
  from Cons.IH[OF i r] sp n show ?case
    by (auto simp: schedule_calls_Cons)
qed

lemma schedule_calls_nonempty:
  assumes "sched_inv s" and "calls \<noteq> []"
  shows "sched_inv (schedule_calls calls s) \<and>
         length (pendingFrames (schedule_calls calls s)) = 1 \<and>
         renderFrame (schedule_calls calls s) \<noteq> None \<and>
         (renderFrame s \<noteq> None \<longrightarrow> schedule_part (schedule_calls calls s) = schedule_part s) \<and>
         occurrences is_request (trace (schedule_calls calls s)) =
           occurrences is_request (trace s) + (if renderFrame s = None then 1 else 0) \<and>
         (PublicSchedule \<in> set calls \<longrightarrow> needToProcess (schedule_calls calls s))"
proof -
  from assms(2) obtain c cs where calls: "calls = c # cs" by (cases calls) auto
  note st = schedule_call_step[OF assms(1), of c]
  from st have i: "sched_inv (apply_schedule_call s c)"
    and r: "renderFrame (apply_schedule_call s c) \<noteq> None" by blast+
  note rest = schedule_calls_pending[OF i r, of cs]
  from rest have sp: "schedule_part (schedule_calls cs (apply_schedule_call s c)) =
      schedule_part (apply_schedule_call s c)" by blast
  then have same: "pendingFrames (schedule_calls cs (apply_schedule_call s c)) =
        pendingFrames (apply_schedule_call s c)"
      "trace (schedule_calls cs (apply_schedule_call s c)) = trace (apply_schedule_call s c)"
    by (simp_all add: schedule_part_def)
  from st rest same show ?thesis
    unfolding calls schedule_calls_Cons
    by (auto simp: schedule_part_def)
qed

lemma frames_inv_cong: "schedule_part s = schedule_part t \<Longrightarrow> frames_inv s = frames_inv t"
  by (simp add: schedule_part_def frames_inv_def cong: option.case_cong)

lemma sched_inv_cong: "schedule_part s = schedule_part t \<Longrightarrow> sched_inv s = sched_inv t"
  by (simp add: schedule_part_def sched_inv_def cong: option.case_cong)

lemma sched_inv_frames_inv: "sched_inv s \<Longrightarrow> frames_inv s"
  by (auto simp: sched_inv_def frames_inv_def split: option.splits)

lemma frames_inv_length: "frames_inv s \<Longrightarrow> length (pendingFrames s) \<le> 1"
  by (auto simp: frames_inv_def split: option.splits)

lemma psr_frames_inv: "frames_inv s \<Longrightarrow> frames_inv (private_scheduleRefresh s)"
proof (cases "renderFrame s")
  case None
  assume "frames_inv s"
  with None show ?thesis by (simp add: psr_idle frames_inv_def)
next
  case (Some tok)
  assume a: "frames_inv s"
  with Some have "0 < tok" by (simp add: frames_inv_def)
  with Some a show ?thesis by (simp add: psr_pending)
qed

lemma psr_sched_inv: "sched_inv s \<Longrightarrow> sched_inv (private_scheduleRefresh s)"
  using psr_step by blast

text \<open>
  Every handler is \<open>_scheduleRefresh\<close> after an update of fields outside the scheduler's
  part.
\<close>

lemma handler_shape:
  "\<exists>t. handle_graph_event e s = private_scheduleRefresh t \<and> schedule_part t = schedule_part s"
proof (cases e)
  case (NodeDropped key)
  show ?thesis
    unfolding NodeDropped handle_graph_event.simps dropNodeGraphUpdate_def graphUpdate_def Let_def
    by (rule exI, rule conjI, rule refl) (simp add: schedule_part_def)
next
  case (EdgeDropped key)
  show ?thesis
    unfolding EdgeDropped handle_graph_event.simps dropEdgeGraphUpdate_def graphUpdate_def Let_def
    by (rule exI, rule conjI, rule refl) (simp add: schedule_part_def)
next
  case EdgesCleared
  show ?thesis
    unfolding EdgesCleared handle_graph_event.simps clearEdgesGraphUpdate_def graphUpdate_def
    by (rule exI, rule conjI, rule refl) (simp add: schedule_part_def)
next
  case Cleared
  show ?thesis
    unfolding Cleared handle_graph_event.simps clearGraphUpdate_def clearEdgesGraphUpdate_def
      graphUpdate_def
    by (rule exI, rule conjI, rule refl) (simp add: schedule_part_def)
qed (simp_all add: graphUpdate_def softGraphUpdate_def,
     (rule exI, rule conjI, rule refl, simp add: schedule_part_def)+)

lemma handler_invs:
  "frames_inv s \<Longrightarrow> frames_inv (handle_graph_event e (s\<lparr>graph := g\<rparr>))"
  "sched_inv s \<Longrightarrow> sched_inv (handle_graph_event e (s\<lparr>graph := g\<rparr>))"
proof -
  obtain t where t: "handle_graph_event e (s\<lparr>graph := g\<rparr>) = private_scheduleRefresh t"
    and sp: "schedule_part t = schedule_part (s\<lparr>graph := g\<rparr>)"
    using handler_shape by blast
  have sp': "schedule_part t = schedule_part s" using sp by (simp add: schedule_part_def)
  show "frames_inv s \<Longrightarrow> frames_inv (handle_graph_event e (s\<lparr>graph := g\<rparr>))"
    unfolding t using frames_inv_cong[OF sp'] psr_frames_inv by blast
  show "sched_inv s \<Longrightarrow> sched_inv (handle_graph_event e (s\<lparr>graph := g\<rparr>))"
    unfolding t using sched_inv_cong[OF sp'] psr_sched_inv by blast
qed

lemma schedule_call_invs:
  "frames_inv s \<Longrightarrow> frames_inv (apply_schedule_call s c)"
  "sched_inv s \<Longrightarrow> sched_inv (apply_schedule_call s c)"
  by (cases c; simp add: scheduleRefresh_def psr_frames_inv psr_sched_inv sched_inv_flags)+

lemma setCustomBBox_invs:
  "frames_inv s \<Longrightarrow> frames_inv (setCustomBBox b s)"
  "sched_inv s \<Longrightarrow> sched_inv (setCustomBBox b s)"
proof -
  have sp: "schedule_part (s\<lparr>customBBox := b\<rparr>) = schedule_part s" by (simp add: schedule_part_def)
  show "frames_inv s \<Longrightarrow> frames_inv (setCustomBBox b s)"
    unfolding setCustomBBox_def using frames_inv_cong[OF sp] psr_frames_inv by blast
  show "sched_inv s \<Longrightarrow> sched_inv (setCustomBBox b s)"
    unfolding setCustomBBox_def using sched_inv_cong[OF sp] psr_sched_inv by blast
qed

lemma frames_inv_flags2:
  "frames_inv (s\<lparr>needToProcess := a, needToSoftProcess := b\<rparr>) = frames_inv s"
  "sched_inv (s\<lparr>needToProcess := a, needToSoftProcess := b\<rparr>) = sched_inv s"
  by (simp_all add: sched_inv_def frames_inv_def split: option.split)

lemma handler_static:
  "static_part (handle_graph_event e s) = static_part s"
  by (cases e)
     (simp_all add: graphUpdate_def softGraphUpdate_def dropNodeGraphUpdate_def
        dropEdgeGraphUpdate_def clearEdgesGraphUpdate_def clearGraphUpdate_def Let_def
        private_scheduleRefresh_def requestFrame_def static_part_def)

lemma schedule_call_static:
  "static_part (apply_schedule_call s c) = static_part s"
  by (cases c) (simp_all add: scheduleRefresh_def psr_static static_flags)

lemma schedule_calls_static:
  "static_part (schedule_calls cs s) = static_part s"
  unfolding schedule_calls_def
  by (induction cs arbitrary: s) (simp_all add: schedule_call_static)

lemma setCustomBBox_static:
  "static_part (setCustomBBox b s) = static_part s"
  by (simp add: setCustomBBox_def psr_static static_flags)

lemma render_invs:
  assumes "no_listeners s"
  shows "frames_inv s \<Longrightarrow> frames_inv (snd (render h s))"
    and "sched_inv s \<Longrightarrow> sched_inv (snd (render h s))"
  by (auto simp: frames_inv_def sched_inv_def render_frames[OF assms] frame_truthy_def
      split: option.splits)

lemma reprocess_invs:
  "frames_inv (snd (reprocess h s)) = frames_inv s"
  "sched_inv (snd (reprocess h s)) = sched_inv s"
  by (simp_all add: frames_inv_def sched_inv_def reprocess_frames cong: option.case_cong)

lemma private_refresh_invs:
  assumes "no_listeners s"
  shows "frames_inv s \<Longrightarrow> frames_inv (snd (private_refresh h s))"
    and "sched_inv s \<Longrightarrow> sched_inv (snd (private_refresh h s))"
proof -
  have q: "no_listeners ((snd (reprocess h s))\<lparr>needToProcess := False, needToSoftProcess := False\<rparr>)"
    using assms by (simp add: no_listeners_kept)
  show "frames_inv s \<Longrightarrow> frames_inv (snd (private_refresh h s))"
    and "sched_inv s \<Longrightarrow> sched_inv (snd (private_refresh h s))"
    unfolding private_refresh_unfold
    by (simp_all add: andThen_snd reprocess_invs render_invs[OF q] frames_inv_flags2)
qed

lemma refresh_invs:
  assumes "no_listeners s"
  shows "frames_inv s \<Longrightarrow> frames_inv (snd (refresh h s))"
    and "sched_inv s \<Longrightarrow> sched_inv (snd (refresh h s))"
proof -
  have q: "no_listeners (s\<lparr>needToProcess := True\<rparr>)" using assms by (simp add: no_listeners_kept)
  show "frames_inv s \<Longrightarrow> frames_inv (snd (refresh h s))"
    and "sched_inv s \<Longrightarrow> sched_inv (snd (refresh h s))"
    by (simp_all add: refresh_def private_refresh_invs[OF q] sched_inv_flags)
qed

lemma refresh_static:
  "static_part (snd (refresh h s)) = static_part s"
  by (simp add: refresh_def private_refresh_static static_flags)

lemma frame_callback_facts:
  "fst (frame_callback h t) = fst (private_refresh h t)"
  "trace (snd (frame_callback h t)) = trace (snd (private_refresh h t))"
  "pendingFrames (snd (frame_callback h t)) = pendingFrames (snd (private_refresh h t))"
  "nextHandle (snd (frame_callback h t)) = nextHandle (snd (private_refresh h t))"
  "fst (private_refresh h t) = None \<Longrightarrow> renderFrame (snd (frame_callback h t)) = None"
  "fst (private_refresh h t) \<noteq> None \<Longrightarrow> snd (frame_callback h t) = snd (private_refresh h t)"
  "static_part (snd (frame_callback h t)) = static_part t"
  by (auto simp: frame_callback_def andThen_snd andThen_fst_None andThen_def
      private_refresh_static static_flags split: option.splits)

lemma frame_callback_frames_inv:
  assumes "frames_inv t" and nl: "no_listeners t"
  shows "frames_inv (snd (frame_callback h t))"
proof (cases "fst (private_refresh h t)")
  case None
  have i: "frames_inv (snd (private_refresh h t))" using assms(1) by (rule private_refresh_invs[OF nl])
  have "snd (frame_callback h t) = (snd (private_refresh h t))\<lparr>renderFrame := None\<rparr>"
    using None by (simp add: frame_callback_def andThen_def)
  moreover have "pendingFrames (snd (private_refresh h t)) = []"
  proof (cases "renderFrame t")
    case None
    with assms have "pendingFrames t = []" by (simp add: frames_inv_def)
    then show ?thesis by (rule private_refresh_frames(2)[OF nl])
  next
    case (Some tok)
    with assms have "tok \<noteq> 0" by (simp add: frames_inv_def)
    with Some have "renderFrame t \<noteq> Some 0" by simp
    with \<open>fst (private_refresh h t) = None\<close>
    have "renderFrame (snd (private_refresh h t)) = None" by (rule private_refresh_frames(3)[OF nl])
    with i show ?thesis by (simp add: frames_inv_def)
  qed
  ultimately show ?thesis using i by (simp add: frames_inv_def)
next
  case (Some e)
  then have "snd (frame_callback h t) = snd (private_refresh h t)"
    by (simp add: frame_callback_facts)
  then show ?thesis using assms(1) by (simp add: private_refresh_invs[OF nl])
qed

lemma fire_frame_static:
  "static_part (snd (fire_frame h s)) = static_part s"
  by (cases "pendingFrames s") (simp_all add: fire_frame_def frame_callback_facts static_flags)

lemma fire_frame_frames_inv:
  assumes "frames_inv s" and "no_listeners s"
  shows "frames_inv (snd (fire_frame h s))"
proof (cases "pendingFrames s")
  case Nil
  then show ?thesis using assms by (simp add: fire_frame_def)
next
  case (Cons tok rest)
  with assms have "frames_inv (s\<lparr>pendingFrames := rest\<rparr>)"
    by (auto simp: frames_inv_def split: option.splits)
  moreover have "no_listeners (s\<lparr>pendingFrames := rest\<rparr>)"
    using assms(2) by (simp add: no_listeners_kept)
  ultimately show ?thesis using Cons by (simp add: fire_frame_def frame_callback_frames_inv)
qed

text \<open>
  On a renderer without listeners, every operation but the registration of a listener
  keeps the weaker invariant, and leaves the renderer without listeners.
\<close>

lemma apply_op_static:
  assumes "\<And>name call. op \<noteq> AddListener name call"
  shows "static_part (snd (apply_op h op s)) = static_part s"
proof (cases op)
  case (AddListener name call)
  with assms[of name call] show ?thesis by simp
qed (simp_all add: handler_static schedule_call_static refresh_static setCustomBBox_static
      fire_frame_static static_flags)

lemma apply_op_frames_inv:
  assumes "frames_inv s" and "no_listeners s" and "\<And>name call. op \<noteq> AddListener name call"
  shows "frames_inv (snd (apply_op h op s))"
proof (cases op)
  case (AddListener name call)
  with assms(3)[of name call] show ?thesis by simp
qed (simp_all add: assms(1,2) handler_invs schedule_call_invs refresh_invs setCustomBBox_invs
      fire_frame_frames_inv)

lemma run_ops_frames_inv:
  assumes "frames_inv s" and "no_listeners s"
    and "\<And>name call. AddListener name call \<notin> set ops"
  shows "frames_inv (run_ops h ops s) \<and> no_listeners (run_ops h ops s)"
  using assms unfolding run_ops_def
proof (induction ops arbitrary: s)
  case Nil
  then show ?case by simp
next
  case (Cons op ops)
  have ne: "\<And>name call. op \<noteq> AddListener name call" using Cons.prems(3) by auto
  have 1: "frames_inv (snd (apply_op h op s))"
    using Cons.prems(1,2) ne by (rule apply_op_frames_inv)
  have 2: "no_listeners (snd (apply_op h op s))"
    using Cons.prems(2) no_listeners_static[OF apply_op_static[OF ne, of h s]] by simp
  have 3: "\<And>name call. AddListener name call \<notin> set ops" using Cons.prems(3) by auto
  from Cons.IH[OF 1 2 3] show ?case by simp
qed

lemma resize_invs:
  "listeners s ''resize'' = [] \<Longrightarrow> sched_inv (snd (resize s)) = sched_inv s"
  by (simp add: sched_inv_def resize_frames cong: option.case_cong)

lemma process_invs:
  "sched_inv (snd (process h k s)) = sched_inv s"
  by (simp add: sched_inv_def process_frames cong: option.case_cong)

lemma handleSettingsUpdate_inv: "sched_inv s \<Longrightarrow> sched_inv (handleSettingsUpdate s)"
proof -
  assume a: "sched_inv s"
  have c: "\<And>c. sched_inv (s\<lparr>camera := c\<rparr>)"
    using a by (simp add: sched_inv_def cong: option.case_cong)
  show ?thesis
    unfolding handleSettingsUpdate_def Let_def
    by (simp add: c psr_sched_inv)
qed

lemma initial_fields_inv: "sched_inv (initial_fields st g cw ch)"
  by (simp add: sched_inv_def initial_fields_def)

lemma initial_no_listeners:
  "no_listeners (initial_fields st g cw ch)"
  "no_listeners ((initial_fields st g cw ch)\<lparr>nodePrograms := ps\<rparr>)"
  by (simp_all add: no_listeners_def initial_fields_def)

lemma new_Sigma_unfold:
  "validateSettings st = None \<Longrightarrow> validateGraph h g = None \<Longrightarrow>
     new_Sigma h st g cw ch =
       andThen (resize ((initial_fields st g cw ch)\<lparr>nodePrograms := nodeProgramClasses st\<rparr>))
         (\<lambda>s1. andThen (process h False (handleSettingsUpdate (s1\<lparr>camera := new_Camera\<rparr>)))
                  (render h))"
  by (simp add: new_Sigma_def Let_def)

lemma new_Sigma_refused:
  "validateSettings st \<noteq> None \<or> validateGraph h g \<noteq> None \<Longrightarrow>
     fst (new_Sigma h st g cw ch) \<noteq> None \<and> snd (new_Sigma h st g cw ch) = initial_fields st g cw ch"
  by (auto simp: new_Sigma_def Let_def split: option.splits)

lemma new_Sigma_no_listeners: "no_listeners (snd (new_Sigma h st g cw ch))"
proof (cases "validateSettings st \<noteq> None \<or> validateGraph h g \<noteq> None")
  case True
  then show ?thesis using new_Sigma_refused[OF True] by (simp add: initial_no_listeners)
next
  case False
  then have v: "validateSettings st = None" "validateGraph h g = None" by simp_all
  have "static_part (snd (new_Sigma h st g cw ch)) =
      static_part ((initial_fields st g cw ch)\<lparr>nodePrograms := nodeProgramClasses st\<rparr>)"
    unfolding new_Sigma_unfold[OF v]
    by (simp add: andThen_snd render_static process_static handleSettingsUpdate_static
        static_flags resize_static)
  from no_listeners_static[OF this] show ?thesis by (simp add: initial_no_listeners)
qed

lemma new_Sigma_inv: "sched_inv (snd (new_Sigma h st g cw ch))"
proof (cases "validateSettings st \<noteq> None \<or> validateGraph h g \<noteq> None")
  case True
  then show ?thesis using new_Sigma_refused[OF True] by (simp add: initial_fields_inv)
next
  case False
  then have v: "validateSettings st = None" "validateGraph h g = None" by simp_all
  let ?i = "(initial_fields st g cw ch)\<lparr>nodePrograms := nodeProgramClasses st\<rparr>"
  have li: "listeners ?i ''resize'' = []"
    by (rule no_listeners_silent) (rule initial_no_listeners)
  have 1: "sched_inv (snd (resize ?i))"
    by (simp add: resize_invs[OF li]) (simp add: sched_inv_def initial_fields_def)
  have 2: "\<And>s1. sched_inv s1 \<Longrightarrow>
      sched_inv (snd (process h False (handleSettingsUpdate (s1\<lparr>camera := new_Camera\<rparr>))))"
  proof -
    fix s1 assume "sched_inv s1"
    then have "sched_inv (s1\<lparr>camera := new_Camera\<rparr>)"
      by (simp add: sched_inv_def cong: option.case_cong)
    then show "sched_inv (snd (process h False (handleSettingsUpdate (s1\<lparr>camera := new_Camera\<rparr>))))"
      by (simp add: process_invs handleSettingsUpdate_inv)
  qed
  have 3: "no_listeners (snd (process h False
      (handleSettingsUpdate ((snd (resize ?i))\<lparr>camera := new_Camera\<rparr>))))"
  proof -
    have "static_part (snd (process h False
        (handleSettingsUpdate ((snd (resize ?i))\<lparr>camera := new_Camera\<rparr>)))) = static_part ?i"
      by (simp add: process_static handleSettingsUpdate_static static_flags resize_static)
    from no_listeners_static[OF this] show ?thesis by (simp add: initial_no_listeners)
  qed
  show ?thesis
    unfolding new_Sigma_unfold[OF v]
    using 1 2 3 by (simp add: andThen_snd render_invs)
qed

subsection \<open>Concrete runs\<close>

lemma resize_ok:
  "containerWidth s \<noteq> 0 \<Longrightarrow> containerHeight s \<noteq> 0 \<Longrightarrow> fst (resize s) = None"
  by (simp add: resize_def Let_def js_eq_def)

lemma render_ok_static:
  assumes "static_part s = (st, ps, cw, ch, ls)" and "cw \<noteq> 0" and "ch \<noteq> 0"
  shows "fst (render h s) = None"
proof -
  have "static_part (before_resize s) = (st, ps, cw, ch, ls)"
    using assms(1) by (simp add: before_resize_static)
  then have "containerWidth (before_resize s) = cw" "containerHeight (before_resize s) = ch"
    by (simp_all add: static_part_def)
  with assms(2,3) have "fst (resize (before_resize s)) = None" by (simp add: resize_ok)
  then show ?thesis by (simp add: render_ok)
qed

lemma process_single_node:
  assumes "settings s = resolved_defaults" and "graph s = single_node_graph vx vy"
    and "nodePrograms s = [''circle'']"
  shows "fst (process plain_helpers k s) = None"
proof -
  let ?s2 = "s\<lparr>trace := trace s @ [Processed k], highlightedNodes := {},
               nodeExtent := graphExtent plain_helpers (graph s), nodesWithForcedLabels := [],
               edgesWithForcedLabels := [],
               normalizationExtent := (case customBBox s of Some b \<Rightarrow> b
                                        | None \<Rightarrow> graphExtent plain_helpers (graph s))\<rparr>"
  let ?d = "[''x'' \<mapsto> vx, ''y'' \<mapsto> vy,
          ''color'' \<mapsto> JString ''#999'', ''label'' \<mapsto> JNull,
          ''size'' \<mapsto> JNumber (Fin 2), ''hidden'' \<mapsto> JBool False,
          ''highlighted'' \<mapsto> JBool False, ''forceLabel'' \<mapsto> JBool False,
          ''type'' \<mapsto> JString ''circle'', ''zIndex'' \<mapsto> JNumber (Fin 0)]"
  have st: "settings ?s2 = resolved_defaults" using assms(1) by simp
  have a: "applyNodeDefaults plain_helpers resolved_defaults ''A'' [''x'' \<mapsto> vx, ''y'' \<mapsto> vy] = Inr ?d"
    by (simp add: applyNodeDefaults_def get_prop_def Let_def num_truthy_def resolved_defaults_def
        DEFAULT_SETTINGS_def)
  have r: "resolve_node plain_helpers (''A'', [''x'' \<mapsto> vx, ''y'' \<mapsto> vy]) ?s2 =
      (None, ?s2\<lparr>nodeDataCache := (nodeDataCache ?s2)(''A'' \<mapsto> ?d)\<rparr>)"
  proof -
    have nr: "nodeReducer resolved_defaults = None"
      by (simp add: resolved_defaults_def DEFAULT_SETTINGS_def)
    have ph: "\<And>e d. applyNormalization plain_helpers e d = d"
      by (simp add: plain_helpers_def)
    show ?thesis
      unfolding resolve_node_def Let_def fst_conv snd_conv st
      by (simp add: nr a ph get_prop_def)
  qed
  have d: "fst (dispatch_node plain_helpers ''A'' (?s2\<lparr>nodeDataCache := (nodeDataCache ?s2)(''A'' \<mapsto> ?d)\<rparr>)) = None"
    by (simp add: dispatch_node_def get_prop_def toString_def assms(3))
  have z: "\<not> zIndex resolved_defaults" by (simp add: resolved_defaults_def DEFAULT_SETTINGS_def)
  show ?thesis
    unfolding process_def Let_def
    using r d z assms
    by (simp add: single_node_graph_def andThen_fst_None andThen_simps cong: option.case_cong)
qed

lemma validate_defaults: "validateSettings resolved_defaults = None"
  by (simp add: validateSettings_def resolved_defaults_def DEFAULT_SETTINGS_def)

lemma validateGraph_single_node:
  "validateGraph plain_helpers (single_node_graph vx vy) =
     (if finite_number vx \<and> finite_number vy then None else Some GraphError)"
  by (simp add: plain_helpers_def single_node_graph_def finite_position_def get_prop_def)

lemma validateGraph_A: "validateGraph plain_helpers graph_A = None"
  by (simp add: graph_A_def validateGraph_single_node)

lemma initial_static:
  "static_part ((initial_fields st g cw ch)\<lparr>nodePrograms := nodeProgramClasses st\<rparr>) =
     (st, nodeProgramClasses st, cw, ch, (\<lambda>name. []))"
  "graph ((initial_fields st g cw ch)\<lparr>nodePrograms := nodeProgramClasses st\<rparr>) = g"
  by (simp_all add: static_part_def initial_fields_def)

lemma new_Sigma_static:
  assumes "validateSettings st = None" and "validateGraph h g = None"
  shows "static_part (snd (new_Sigma h st g cw ch)) = (st, nodeProgramClasses st, cw, ch, (\<lambda>name. []))"
    and "graph (snd (new_Sigma h st g cw ch)) = g"
  unfolding new_Sigma_unfold[OF assms]
  by (simp_all add: andThen_snd render_static process_static process_graph
      handleSettingsUpdate_static static_flags resize_static initial_static)

text \<open>
  With no bound on the ratio, \<open>handleSettingsUpdate\<close> finds the new camera in the state it
  validates, so that the camera does not notify and no frame is requested.
\<close>

lemma handleSettingsUpdate_fresh:
  assumes "minCameraRatio (settings s) = None" and "maxCameraRatio (settings s) = None"
    and "camera s = new_Camera"
  shows "schedule_part (handleSettingsUpdate s) = schedule_part s"
proof -
  let ?c0 = "new_Camera\<lparr>minRatio := None, maxRatio := None\<rparr>"
  have "emitted (setState (validateState ?c0 (as_partial (getState ?c0))) ?c0) = emitted ?c0"
    by (simp add: new_Camera_def getState_def as_partial_def validateState_def setState_def
        hasState_def getBoundedRatio_def js_eq_def Let_def)
  then show ?thesis
    unfolding handleSettingsUpdate_def Let_def assms
    by (simp add: schedule_part_def)
qed

lemma new_Sigma_schedule:
  assumes ok: "fst (new_Sigma h st g cw ch) = None"
    and lo: "minCameraRatio st = None" and hi: "maxCameraRatio st = None"
  shows "renderFrame (snd (new_Sigma h st g cw ch)) = None"
    and "pendingFrames (snd (new_Sigma h st g cw ch)) = []"
    and "nextHandle (snd (new_Sigma h st g cw ch)) = 1"
proof -
  have v: "validateSettings st = None" "validateGraph h g = None"
    using ok by (auto simp: new_Sigma_def Let_def split: option.splits)
  let ?i = "(initial_fields st g cw ch)\<lparr>nodePrograms := nodeProgramClasses st\<rparr>"
  let ?r = "resize ?i"
  let ?u = "handleSettingsUpdate ((snd ?r)\<lparr>camera := new_Camera\<rparr>)"
  let ?p = "process h False ?u"
  from ok have oks: "fst ?r = None" "fst ?p = None"
    unfolding new_Sigma_unfold[OF v] by (simp_all add: andThen_fst_None)
  then have eq: "snd (new_Sigma h st g cw ch) = snd (render h (snd ?p))"
    unfolding new_Sigma_unfold[OF v] by (simp add: andThen_snd)
  have li: "listeners ?i ''resize'' = []"
    by (rule no_listeners_silent) (rule initial_no_listeners)
  have sr: "static_part (snd ?r) = (st, nodeProgramClasses st, cw, ch, (\<lambda>name. []))"
    by (simp add: resize_static initial_static)
  have fr: "renderFrame (snd ?r) = None" "pendingFrames (snd ?r) = []" "nextHandle (snd ?r) = 1"
    by (simp_all add: resize_frames[OF li]) (simp_all add: initial_fields_def)
  have su: "schedule_part ?u = schedule_part ((snd ?r)\<lparr>camera := new_Camera\<rparr>)"
    by (rule handleSettingsUpdate_fresh) (use sr lo hi in \<open>simp_all add: static_part_def\<close>)
  then have fu: "renderFrame ?u = None" "pendingFrames ?u = []" "nextHandle ?u = 1"
    using fr by (simp_all add: schedule_part_def)
  have fp: "renderFrame (snd ?p) = None" "pendingFrames (snd ?p) = []" "nextHandle (snd ?p) = 1"
    using fu by (simp_all add: process_frames)
  have "static_part (snd ?p) = static_part ?i"
    by (simp add: process_static handleSettingsUpdate_static static_flags resize_static)
  from no_listeners_static[OF this] have q: "no_listeners (snd ?p)"
    by (simp add: initial_no_listeners)
  show "renderFrame (snd (new_Sigma h st g cw ch)) = None"
    and "pendingFrames (snd (new_Sigma h st g cw ch)) = []"
    and "nextHandle (snd (new_Sigma h st g cw ch)) = 1"
    unfolding eq using fp by (simp_all add: render_frames[OF q] frame_truthy_def)
qed

lemma static_fields:
  "static_part s = (st, ps, cw, ch, ls) \<Longrightarrow>
     settings s = st \<and> nodePrograms s = ps \<and> containerWidth s = cw \<and> containerHeight s = ch \<and>
     listeners s = ls"
  by (simp add: static_part_def)

text \<open>
  The constructor accepts a graph of one node with a finite position, and refuses, by
  \<open>validateGraph\<close>, one whose position is not finite.
\<close>

lemma constructed_single_node:
  assumes "finite_number vx" and "finite_number vy"
  shows "fst (new_Sigma plain_helpers resolved_defaults (single_node_graph vx vy) 800 600) = None"
proof -
  let ?i = "(initial_fields resolved_defaults (single_node_graph vx vy) 800 600)
              \<lparr>nodePrograms := nodeProgramClasses resolved_defaults\<rparr>"
  have vg: "validateGraph plain_helpers (single_node_graph vx vy) = None"
    using assms by (simp add: validateGraph_single_node)
  have npc: "nodeProgramClasses resolved_defaults = [''circle'']"
    by (simp add: resolved_defaults_def)
  have r: "fst (resize ?i) = None"
    by (rule resize_ok) (simp_all add: initial_fields_def)
  let ?u = "handleSettingsUpdate ((snd (resize ?i))\<lparr>camera := new_Camera\<rparr>)"
  have su: "static_part ?u = (resolved_defaults, [''circle''], 800, 600, (\<lambda>name. []))"
    and gu: "graph ?u = single_node_graph vx vy"
    using initial_static[of resolved_defaults "single_node_graph vx vy" 800 600]
    by (simp_all add: handleSettingsUpdate_static static_flags resize_static npc)
  have p: "fst (process plain_helpers False ?u) = None"
    using static_fields[OF su] gu by (intro process_single_node[where vx = vx and vy = vy]) simp_all
  have "static_part (snd (process plain_helpers False ?u)) =
      (resolved_defaults, [''circle''], 800, 600, (\<lambda>name. []))"
    using su by (simp add: process_static)
  then have rd: "fst (render plain_helpers (snd (process plain_helpers False ?u))) = None"
    by (rule render_ok_static) simp_all
  show ?thesis
    unfolding new_Sigma_unfold[OF validate_defaults vg]
    using r p rd by (simp add: andThen_fst_None)
qed

lemma constructor_refuses:
  assumes "\<not> (finite_number vx \<and> finite_number vy)"
  shows "fst (new_Sigma plain_helpers resolved_defaults (single_node_graph vx vy) 800 600) =
     Some GraphError"
proof -
  have "validateGraph plain_helpers (single_node_graph vx vy) = Some GraphError"
    using assms by (auto simp: validateGraph_single_node)
  then show ?thesis by (simp add: new_Sigma_def Let_def validate_defaults)
qed

lemma constructed_A: "fst (new_Sigma plain_helpers resolved_defaults graph_A 800 600) = None"
  unfolding graph_A_def by (rule constructed_single_node) simp_all

lemma defaults_unbounded:
  "minCameraRatio resolved_defaults = None" "maxCameraRatio resolved_defaults = None"
  by (simp_all add: resolved_defaults_def DEFAULT_SETTINGS_def)

lemma renderer_A_facts:
  "static_part renderer_A = (resolved_defaults, [''circle''], 800, 600, (\<lambda>name. []))"
  "graph renderer_A = graph_A"
  "sched_inv renderer_A"
  "renderFrame renderer_A = None"
  "pendingFrames renderer_A = []"
  "nextHandle renderer_A = 1"
  "no_listeners renderer_A"
  unfolding renderer_A_def
  using new_Sigma_static[OF validate_defaults validateGraph_A]
    new_Sigma_schedule[OF constructed_A defaults_unbounded]
  by (simp_all add: new_Sigma_inv new_Sigma_no_listeners resolved_defaults_def)

subsection \<open>Coalescing of refreshes on a renderer without listeners\<close>

lemma listeners_static: "static_part s = static_part t \<Longrightarrow> listeners s = listeners t"
  by (simp add: static_part_def)

lemma fire_frame_pending:
  assumes "sched_inv s" and "renderFrame s \<noteq> None" and nl: "no_listeners s"
  shows "pendingFrames (snd (fire_frame h s)) = [] \<and>
         occurrences is_request (trace (snd (fire_frame h s))) = occurrences is_request (trace s) \<and>
         occurrences is_processed (trace (snd (fire_frame h s))) =
           occurrences is_processed (trace s) +
             (if needToProcess s \<or> needToSoftProcess s then 1 else 0) \<and>
         occurrences is_render (trace (snd (fire_frame h s))) \<le> occurrences is_render (trace s) + 1 \<and>
         (fst (fire_frame h s) = None \<longrightarrow>
            occurrences is_render (trace (snd (fire_frame h s))) = occurrences is_render (trace s) + 1 \<and>
            renderFrame (snd (fire_frame h s)) = None \<and>
            sched_inv (snd (fire_frame h s)))"
proof -
  from assms obtain tok where tok: "renderFrame s = Some tok" "pendingFrames s = [tok]"
    and nh: "0 < nextHandle s"
    by (auto simp: sched_inv_def)
  let ?t = "s\<lparr>pendingFrames := []\<rparr>"
  have q: "no_listeners ?t" using nl by (simp add: no_listeners_kept)
  have ff: "fire_frame h s = frame_callback h ?t"
    using tok by (simp add: fire_frame_def)
  have pt: "pendingFrames ?t = []" by simp
  have p: "pendingFrames (snd (fire_frame h s)) = []"
    unfolding ff frame_callback_facts by (rule private_refresh_frames(2)[OF q pt])
  have req: "occurrences is_request (trace (snd (fire_frame h s))) = occurrences is_request (trace s)"
    unfolding ff frame_callback_facts by (simp add: private_refresh_counts[OF q])
  have pro: "occurrences is_processed (trace (snd (fire_frame h s))) =
           occurrences is_processed (trace s) +
             (if needToProcess s \<or> needToSoftProcess s then 1 else 0)"
    unfolding ff frame_callback_facts by (simp add: private_refresh_counts[OF q])
  have ren: "occurrences is_render (trace (snd (fire_frame h s))) =
           occurrences is_render (trace s) + (if fst (reprocess h ?t) = None then 1 else 0)"
    unfolding ff frame_callback_facts by (simp add: private_refresh_counts[OF q])
  have ok: "fst (fire_frame h s) = None \<Longrightarrow> fst (reprocess h ?t) = None"
    unfolding ff frame_callback_facts private_refresh_unfold by (simp add: andThen_fst_None)
  have rf: "fst (fire_frame h s) = None \<Longrightarrow> renderFrame (snd (fire_frame h s)) = None"
    unfolding ff by (simp add: frame_callback_facts)
  have nx: "nextHandle (snd (fire_frame h s)) = nextHandle s"
    unfolding ff by (simp add: frame_callback_facts private_refresh_frames(1)[OF q])
  have inv: "fst (fire_frame h s) = None \<Longrightarrow> sched_inv (snd (fire_frame h s))"
    using rf p nx nh by (simp add: sched_inv_def)
  from p req pro ren ok rf inv show ?thesis by auto
qed

text \<open>
  On a renderer without listeners whose stored frame handle is in step with the pending
  frames (\<open>sched_inv\<close>), any non-empty sequence of \<open>scheduleRefresh\<close> or \<open>_scheduleRefresh\<close>
  calls leaves exactly one frame pending; the calls request one frame when none was
  pending before and none otherwise, and while a frame is pending a call changes neither
  the handle, nor the pending frames, nor the effects. When that frame fires, no frame is
  pending afterwards and none was requested; \<open>process\<close> runs once when a reprocess is due
  and not at all otherwise; \<open>render\<close> runs at most once, and exactly once when the
  callback returns without an exception, after which the stored handle is null.
\<close>

lemma coalescing_without_listeners:
  assumes i: "sched_inv s" and ne: "calls \<noteq> []" and nl: "no_listeners s"
  shows "sched_inv (schedule_calls calls s)"
    and "length (pendingFrames (schedule_calls calls s)) = 1"
    and "occurrences is_request (trace (schedule_calls calls s)) =
        occurrences is_request (trace s) + (if renderFrame s = None then 1 else 0)"
    and "renderFrame s \<noteq> None \<Longrightarrow> schedule_part (schedule_calls calls s) = schedule_part s"
    and "PublicSchedule \<in> set calls \<Longrightarrow> needToProcess (schedule_calls calls s)"
    and "pendingFrames (snd (fire_frame h (schedule_calls calls s))) = []"
    and "occurrences is_request (trace (snd (fire_frame h (schedule_calls calls s)))) =
        occurrences is_request (trace (schedule_calls calls s))"
    and "occurrences is_processed (trace (snd (fire_frame h (schedule_calls calls s)))) =
        occurrences is_processed (trace (schedule_calls calls s)) +
          (if needToProcess (schedule_calls calls s) \<or> needToSoftProcess (schedule_calls calls s)
           then 1 else 0)"
    and "occurrences is_render (trace (snd (fire_frame h (schedule_calls calls s)))) \<le>
        occurrences is_render (trace (schedule_calls calls s)) + 1"
    and "fst (fire_frame h (schedule_calls calls s)) = None \<Longrightarrow>
         occurrences is_render (trace (snd (fire_frame h (schedule_calls calls s)))) =
           occurrences is_render (trace (schedule_calls calls s)) + 1 \<and>
         renderFrame (snd (fire_frame h (schedule_calls calls s))) = None \<and>
         sched_inv (snd (fire_frame h (schedule_calls calls s)))"
proof -
  note sc = schedule_calls_nonempty[OF i ne]
  from sc have i': "sched_inv (schedule_calls calls s)"
    and r': "renderFrame (schedule_calls calls s) \<noteq> None" by blast+
  have nl': "no_listeners (schedule_calls calls s)"
    using nl no_listeners_static[OF schedule_calls_static[of calls s]] by simp
  note ff = fire_frame_pending[OF i' r' nl', of h]
  show "sched_inv (schedule_calls calls s)" by (rule i')
  show "length (pendingFrames (schedule_calls calls s)) = 1" using sc by blast
  show "occurrences is_request (trace (schedule_calls calls s)) =
        occurrences is_request (trace s) + (if renderFrame s = None then 1 else 0)"
    using sc by blast
  show "schedule_part (schedule_calls calls s) = schedule_part s" if "renderFrame s \<noteq> None"
    using sc that by blast
  show "needToProcess (schedule_calls calls s)" if "PublicSchedule \<in> set calls"
    using sc that by blast
  show "pendingFrames (snd (fire_frame h (schedule_calls calls s))) = []" using ff by blast
  show "occurrences is_request (trace (snd (fire_frame h (schedule_calls calls s)))) =
        occurrences is_request (trace (schedule_calls calls s))" using ff by blast
  show "occurrences is_processed (trace (snd (fire_frame h (schedule_calls calls s)))) =
        occurrences is_processed (trace (schedule_calls calls s)) +
          (if needToProcess (schedule_calls calls s) \<or> needToSoftProcess (schedule_calls calls s)
           then 1 else 0)" using ff by blast
  show "occurrences is_render (trace (snd (fire_frame h (schedule_calls calls s)))) \<le>
        occurrences is_render (trace (schedule_calls calls s)) + 1" using ff by blast
  show "occurrences is_render (trace (snd (fire_frame h (schedule_calls calls s)))) =
           occurrences is_render (trace (schedule_calls calls s)) + 1 \<and>
         renderFrame (snd (fire_frame h (schedule_calls calls s))) = None \<and>
         sched_inv (snd (fire_frame h (schedule_calls calls s)))"
    if "fst (fire_frame h (schedule_calls calls s)) = None" using ff that by blast
qed

text \<open>
  While no listener is registered, at most one frame is pending in every state reached
  from a constructed renderer, with or without exceptions.
\<close>

lemma one_frame_without_listeners:
  assumes "\<And>name call. AddListener name call \<notin> set ops"
  shows "length (pendingFrames (run_ops h ops (snd (new_Sigma h st g cw ch)))) \<le> 1"
proof -
  have "frames_inv (snd (new_Sigma h st g cw ch))"
    by (rule sched_inv_frames_inv, rule new_Sigma_inv)
  from run_ops_frames_inv[OF this new_Sigma_no_listeners assms, of h]
  have "frames_inv (run_ops h ops (snd (new_Sigma h st g cw ch)))" by simp
  then show ?thesis by (rule frames_inv_length)
qed

subsection \<open>The frame callback and the stored handle\<close>

lemma after_resize_listening:
  assumes "listeners s ''afterRender'' = [CallScheduleRefresh]" and "renderFrame s = None"
  shows "renderFrame (snd (after_resize h s)) = Some (nextHandle s)"
    and "pendingFrames (snd (after_resize h s)) = pendingFrames s @ [nextHandle s]"
    and "nextHandle (snd (after_resize h s)) = Suc (nextHandle s)"
  using assms
  by (simp_all add: after_resize_def emit_def scheduleRefresh_def private_scheduleRefresh_def
      frame_truthy_def requestFrame_def)

lemma render_listening:
  assumes b: "listeners s ''beforeRender'' = []" and r: "listeners s ''resize'' = []"
    and a: "listeners s ''afterRender'' = [CallScheduleRefresh]"
    and rf: "renderFrame s = Some tok" and tok: "0 < tok" and pf: "pendingFrames s = []"
    and ok: "fst (render h s) = None"
  shows "renderFrame (snd (render h s)) = Some (nextHandle s)"
    and "pendingFrames (snd (render h s)) = [nextHandle s]"
    and "nextHandle (snd (render h s)) = Suc (nextHandle s)"
proof -
  let ?b = "before_resize s"
  let ?r = "snd (resize ?b)"
  have lb: "listeners ?b = listeners s"
    by (rule listeners_static) (simp add: before_resize_static)
  have lr: "listeners ?r = listeners s"
    by (rule listeners_static) (simp add: before_resize_static resize_static)
  have fb: "renderFrame ?b = None" "pendingFrames ?b = []" "nextHandle ?b = nextHandle s"
    using rf tok pf by (simp_all add: before_resize_frames[OF b] frame_truthy_def)
  have rb: "listeners ?b ''resize'' = []" using r lb by simp
  have fr: "renderFrame ?r = None" "pendingFrames ?r = []" "nextHandle ?r = nextHandle s"
    using fb by (simp_all add: resize_frames[OF rb])
  have ar: "listeners ?r ''afterRender'' = [CallScheduleRefresh]" using a lr by simp
  have okr: "fst (resize ?b) = None" using ok by (simp add: render_ok)
  have eq: "render h s = after_resize h ?r"
    unfolding render_unfold using okr by (rule andThen_fst_ok)
  show "renderFrame (snd (render h s)) = Some (nextHandle s)"
    and "pendingFrames (snd (render h s)) = [nextHandle s]"
    and "nextHandle (snd (render h s)) = Suc (nextHandle s)"
    unfolding eq using fr by (simp_all add: after_resize_listening[OF ar fr(1)])
qed

lemma fire_frame_listening:
  assumes inv: "sched_inv s" and rf: "renderFrame s = Some tok"
    and b: "listeners s ''beforeRender'' = []" and r: "listeners s ''resize'' = []"
    and a: "listeners s ''afterRender'' = [CallScheduleRefresh]"
    and ok: "fst (fire_frame h s) = None"
  shows "renderFrame (snd (fire_frame h s)) = None"
    and "pendingFrames (snd (fire_frame h s)) = [nextHandle s]"
    and "nextHandle (snd (fire_frame h s)) = Suc (nextHandle s)"
proof -
  from inv rf have pf: "pendingFrames s = [tok]" and tok: "0 < tok"
    by (simp_all add: sched_inv_def)
  let ?t = "s\<lparr>pendingFrames := []\<rparr>"
  let ?u = "(snd (reprocess h ?t))\<lparr>needToProcess := False, needToSoftProcess := False\<rparr>"
  have ff: "fire_frame h s = frame_callback h ?t"
    using pf by (simp add: fire_frame_def)
  have okp: "fst (private_refresh h ?t) = None"
    using ok unfolding ff by (simp add: frame_callback_facts)
  then have okr: "fst (reprocess h ?t) = None" and okd: "fst (render h ?u) = None"
    unfolding private_refresh_unfold by (simp_all add: andThen_fst_None)
  have pr: "private_refresh h ?t = render h ?u"
    unfolding private_refresh_unfold using okr by (rule andThen_fst_ok)
  have lu: "listeners ?u = listeners s"
    by (rule listeners_static) (simp add: static_flags reprocess_static)
  have fu: "renderFrame ?u = Some tok" "pendingFrames ?u = []" "nextHandle ?u = nextHandle s"
    using rf by (simp_all add: reprocess_frames)
  have bu: "listeners ?u ''beforeRender'' = []" and ru: "listeners ?u ''resize'' = []"
    and au: "listeners ?u ''afterRender'' = [CallScheduleRefresh]"
    using b r a lu by simp_all
  note rl = render_listening[OF bu ru au fu(1) tok fu(2) okd]
  have sc: "snd (frame_callback h ?t) = (snd (render h ?u))\<lparr>renderFrame := None\<rparr>"
    using okd by (simp add: frame_callback_def pr andThen_def)
  show "renderFrame (snd (fire_frame h s)) = None"
    and "pendingFrames (snd (fire_frame h s)) = [nextHandle s]"
    and "nextHandle (snd (fire_frame h s)) = Suc (nextHandle s)"
    unfolding ff sc using rl fu(3) by simp_all
qed

lemma resize_errors:
  "fst (resize s) = None \<or> fst (resize s) = Some ContainerWidthError \<or>
   fst (resize s) = Some ContainerHeightError"
  by (simp add: resize_def Let_def)

lemma render_errors: "fst (render h s) \<noteq> Some (NodePositionError key)"
proof -
  have "fst (render h s) = fst (resize (before_resize s))"
    unfolding render_unfold
    by (cases "fst (resize (before_resize s))")
       (simp_all add: andThen_def after_resize_ok)
  then show ?thesis using resize_errors[of "before_resize s"] by auto
qed

lemma fire_frame_position_error:
  assumes inv: "sched_inv s" and rf: "renderFrame s = Some tok"
    and err: "fst (fire_frame h s) = Some (NodePositionError key)"
  shows "renderFrame (snd (fire_frame h s)) = Some tok"
    and "pendingFrames (snd (fire_frame h s)) = []"
proof -
  from inv rf have pf: "pendingFrames s = [tok]" by (simp add: sched_inv_def)
  let ?t = "s\<lparr>pendingFrames := []\<rparr>"
  let ?u = "(snd (reprocess h ?t))\<lparr>needToProcess := False, needToSoftProcess := False\<rparr>"
  have ff: "fire_frame h s = frame_callback h ?t"
    using pf by (simp add: fire_frame_def)
  have ep: "fst (private_refresh h ?t) = Some (NodePositionError key)"
    using err unfolding ff by (simp add: frame_callback_facts)
  have "fst (reprocess h ?t) \<noteq> None"
  proof
    assume "fst (reprocess h ?t) = None"
    then have "private_refresh h ?t = render h ?u"
      unfolding private_refresh_unfold by (rule andThen_fst_ok)
    with ep show False by (simp add: render_errors)
  qed
  then obtain e where e: "fst (reprocess h ?t) = Some e" by auto
  have pr: "private_refresh h ?t = reprocess h ?t"
    unfolding private_refresh_unfold using e by (rule andThen_fst_error)
  have sc: "snd (frame_callback h ?t) = snd (reprocess h ?t)"
    using ep by (simp add: frame_callback_facts pr)
  show "renderFrame (snd (fire_frame h s)) = Some tok"
    and "pendingFrames (snd (fire_frame h s)) = []"
    unfolding ff sc using rf by (simp_all add: reprocess_frames)
qed

lemma schedule_calls_stuck:
  assumes "renderFrame s = Some tok" and "0 < tok"
  shows "schedule_part (schedule_calls cs s) = schedule_part s"
  using assms
proof (induction cs arbitrary: s)
  case Nil
  then show ?case by (simp add: schedule_calls_Nil)
next
  case (Cons c cs)
  have k: "schedule_part (apply_schedule_call s c) = schedule_part s"
    using Cons.prems
    by (cases c) (simp_all add: scheduleRefresh_def psr_pending schedule_part_def)
  then have "renderFrame (apply_schedule_call s c) = Some tok"
    using Cons.prems(1) by (simp add: schedule_part_def)
  from Cons.IH[OF this Cons.prems(2)] k show ?case
    by (simp add: schedule_calls_Cons)
qed

text \<open>
  Claim C5 against the code. A frame's callback is
  \<open>() => { this._refresh(); this.renderFrame = null; }\<close>: the stored handle is reset only
  after \<open>_refresh\<close> has returned. Let a frame be pending with its handle stored.

  When a listener of \<open>afterRender\<close> calls \<open>scheduleRefresh()\<close> and the frame fires without
  an exception, the listener's call requests a new frame during \<open>render\<close>, and the callback
  then erases its handle: the new frame is pending with no handle stored, and the next
  \<open>scheduleRefresh()\<close> requests a second one, so that two frames are pending.

  When the reprocess of the fired frame throws for a node without a position, the callback
  never resets the handle: the handle of the fired frame stays stored with no frame
  pending, and no sequence of \<open>scheduleRefresh\<close> or \<open>_scheduleRefresh\<close> calls requests a
  frame afterwards.
\<close>

theorem frame_callback_loses_handle:
  assumes "sched_inv s" and "renderFrame s = Some tok"
  shows "(listeners s ''beforeRender'' = [] \<and> listeners s ''resize'' = [] \<and>
          listeners s ''afterRender'' = [CallScheduleRefresh] \<and>
          fst (fire_frame h s) = None \<longrightarrow>
            renderFrame (snd (fire_frame h s)) = None \<and>
            pendingFrames (snd (fire_frame h s)) = [nextHandle s] \<and>
            pendingFrames (scheduleRefresh (snd (fire_frame h s))) =
              [nextHandle s, Suc (nextHandle s)]) \<and>
         (fst (fire_frame h s) = Some (NodePositionError key) \<longrightarrow>
            renderFrame (snd (fire_frame h s)) = Some tok \<and>
            pendingFrames (snd (fire_frame h s)) = [] \<and>
            pendingFrames (schedule_calls calls (snd (fire_frame h s))) = [] \<and>
            trace (schedule_calls calls (snd (fire_frame h s))) = trace (snd (fire_frame h s)))"
proof (intro conjI impI)
  assume l: "listeners s ''beforeRender'' = [] \<and> listeners s ''resize'' = [] \<and>
          listeners s ''afterRender'' = [CallScheduleRefresh] \<and> fst (fire_frame h s) = None"
  then have b: "listeners s ''beforeRender'' = []" and r: "listeners s ''resize'' = []"
    and a: "listeners s ''afterRender'' = [CallScheduleRefresh]"
    and ok: "fst (fire_frame h s) = None" by simp_all
  note f = fire_frame_listening[OF assms b r a ok]
  show "renderFrame (snd (fire_frame h s)) = None" by (rule f(1))
  show "pendingFrames (snd (fire_frame h s)) = [nextHandle s]" by (rule f(2))
  show "pendingFrames (scheduleRefresh (snd (fire_frame h s))) = [nextHandle s, Suc (nextHandle s)]"
    using f by (simp add: scheduleRefresh_def psr_idle)
next
  assume err: "fst (fire_frame h s) = Some (NodePositionError key)"
  from assms have tok: "0 < tok" by (simp add: sched_inv_def)
  note f = fire_frame_position_error[OF assms err]
  note st = schedule_calls_stuck[OF f(1) tok, of calls]
  show "renderFrame (snd (fire_frame h s)) = Some tok" by (rule f(1))
  show "pendingFrames (snd (fire_frame h s)) = []" by (rule f(2))
  show "pendingFrames (schedule_calls calls (snd (fire_frame h s))) = []"
    using st f(2) by (simp add: schedule_part_def)
  show "trace (schedule_calls calls (snd (fire_frame h s))) = trace (snd (fire_frame h s))"
    using st by (simp add: schedule_part_def)
qed

lemma find_C:
  "find (\<lambda>entry. lacks_position (reduced_attributes resolved_defaults entry)) (graph_nodes graph_AC) =
     Some (''C'', Map.empty)"
  by (simp add: graph_AC_def lacks_position_def reduced_attributes_def resolved_defaults_def
      DEFAULT_SETTINGS_def)

lemma renderer_A_fields:
  "settings renderer_A = resolved_defaults" "nodePrograms renderer_A = [''circle'']"
  "containerWidth renderer_A = 800" "containerHeight renderer_A = 600"
  "listeners renderer_A = (\<lambda>name. [])"
  using static_fields[OF renderer_A_facts(1)] by simp_all

text \<open>The state after the \<open>nodeAdded\<close> notification.\<close>

lemma notified:
  "renderer_notified =
     renderer_A\<lparr>graph := graph_AC, needToProcess := True,
                pendingFrames := [1], nextHandle := 2,
                trace := trace renderer_A @ [FrameRequested 1],
                renderFrame := Some 1\<rparr>"
proof -
  have "renderFrame (renderer_A\<lparr>graph := graph_AC, needToProcess := True\<rparr>) = None"
    by (simp add: renderer_A_facts)
  then show ?thesis
    by (simp add: renderer_notified_def run_ops_def graphUpdate_def psr_idle renderer_A_facts)
qed

lemma notified_facts:
  "sched_inv renderer_notified" "renderFrame renderer_notified = Some 1"
proof -
  show "sched_inv renderer_notified"
    using handler_invs(2)[OF renderer_A_facts(3), of NodeAdded graph_AC]
    by (simp add: renderer_notified_def run_ops_def)
  show "renderFrame renderer_notified = Some 1" by (simp add: notified)
qed

lemma failed_frame:
  "fst (fire_frame plain_helpers renderer_notified) = Some (NodePositionError ''C'')"
proof -
  let ?t = "renderer_A\<lparr>graph := graph_AC, needToProcess := True,
                nextHandle := 2,
                trace := trace renderer_A @ [FrameRequested 1],
                renderFrame := Some 1,
                pendingFrames := []\<rparr>"
  have ff: "fire_frame plain_helpers renderer_notified = frame_callback plain_helpers ?t"
    unfolding notified by (simp add: fire_frame_def)
  have st: "settings ?t = resolved_defaults"
    by (simp add: renderer_A_fields)
  have "find (\<lambda>entry. lacks_position (reduced_attributes (settings ?t) entry))
          (graph_nodes (graph ?t)) = Some (''C'', Map.empty)"
    unfolding st using find_C by simp
  then have e: "fst (process plain_helpers False ?t) = Some (NodePositionError (fst (''C'', Map.empty :: attrs)))"
    by (rule process_position_error)
  have rp: "reprocess plain_helpers ?t = process plain_helpers False ?t"
    by (simp add: reprocess_def)
  have pr: "private_refresh plain_helpers ?t = process plain_helpers False ?t"
    unfolding private_refresh_unfold rp using e by (simp add: andThen_fst_error)
  show ?thesis
    unfolding ff frame_callback_facts pr using e by simp
qed

text \<open>The state after the registration of the listener and the call of \<open>scheduleRefresh\<close>.\<close>

lemma listening_facts:
  "sched_inv listening_renderer"
  "renderFrame listening_renderer = Some 1"
  "pendingFrames listening_renderer = [1]"
  "nextHandle listening_renderer = 2"
  "needToProcess listening_renderer"
  "graph listening_renderer = graph_A"
  "settings listening_renderer = resolved_defaults"
  "nodePrograms listening_renderer = [''circle'']"
  "containerWidth listening_renderer = 800"
  "containerHeight listening_renderer = 600"
  "listeners listening_renderer ''beforeRender'' = []"
  "listeners listening_renderer ''resize'' = []"
  "listeners listening_renderer ''afterRender'' = [CallScheduleRefresh]"
proof -
  let ?l = "addListener ''afterRender'' CallScheduleRefresh renderer_A"
  have eq: "listening_renderer = scheduleRefresh ?l"
    by (simp add: listening_renderer_def run_ops_def)
  have idle: "renderFrame (?l\<lparr>needToProcess := True\<rparr>) = None"
    by (simp add: addListener_def renderer_A_facts)
  have sp: "schedule_part ?l = schedule_part renderer_A"
    by (simp add: addListener_def schedule_part_def)
  have "sched_inv ?l" using sched_inv_cong[OF sp] renderer_A_facts(3) by simp
  then show "sched_inv listening_renderer"
    unfolding eq scheduleRefresh_def by (simp add: psr_sched_inv sched_inv_flags)
  show "renderFrame listening_renderer = Some 1"
    "pendingFrames listening_renderer = [1]"
    "nextHandle listening_renderer = 2"
    "needToProcess listening_renderer"
    "graph listening_renderer = graph_A"
    "settings listening_renderer = resolved_defaults"
    "nodePrograms listening_renderer = [''circle'']"
    "containerWidth listening_renderer = 800"
    "containerHeight listening_renderer = 600"
    "listeners listening_renderer ''beforeRender'' = []"
    "listeners listening_renderer ''resize'' = []"
    "listeners listening_renderer ''afterRender'' = [CallScheduleRefresh]"
    unfolding eq scheduleRefresh_def psr_idle[OF idle]
    by (simp_all add: addListener_def renderer_A_facts renderer_A_fields)
qed

lemma listening_frame_fires:
  "fst (fire_frame plain_helpers listening_renderer) = None"
proof -
  let ?t = "listening_renderer\<lparr>pendingFrames := []\<rparr>"
  have st: "static_part ?t =
      (resolved_defaults, [''circle''], 800, 600, listeners listening_renderer)"
    by (simp add: static_part_def listening_facts)
  have p: "fst (process plain_helpers False ?t) = None"
    by (intro process_single_node[where vx = "JNumber (Fin 0)" and vy = "JNumber (Fin 0)"])
       (simp_all add: listening_facts graph_A_def)
  have rp: "reprocess plain_helpers ?t = process plain_helpers False ?t"
    by (simp add: reprocess_def listening_facts)
  have "static_part ((snd (process plain_helpers False ?t))\<lparr>needToProcess := False, needToSoftProcess := False\<rparr>) =
      (resolved_defaults, [''circle''], 800, 600, listeners listening_renderer)"
    using st by (simp add: static_flags process_static)
  then have rd: "fst (render plain_helpers
      ((snd (process plain_helpers False ?t))\<lparr>needToProcess := False, needToSoftProcess := False\<rparr>)) = None"
    by (rule render_ok_static) simp_all
  have "fst (private_refresh plain_helpers ?t) = None"
    unfolding private_refresh_unfold rp using p rd by (simp add: andThen_fst_None)
  then show ?thesis
    by (simp add: fire_frame_def frame_callback_facts listening_facts)
qed

text \<open>
  The theorem of C5 on the renderer constructed on node \<open>A\<close>. With a listener of
  \<open>afterRender\<close> that calls \<open>scheduleRefresh()\<close>, the frame with handle 1 fires without an
  exception and leaves frame 2 pending with no handle stored; one more \<open>scheduleRefresh()\<close>
  leaves frames 2 and 3 pending. Without listeners, after a node \<open>C\<close> without a position
  was added, the frame with handle 1 fires and \<open>process\<close> throws; handle 1 stays stored
  with no frame pending, and two \<open>scheduleRefresh()\<close> calls request nothing.
\<close>

theorem frame_callback_loses_handle_witness:
  "fst (fire_frame plain_helpers listening_renderer) = None \<and>
   renderFrame (snd (fire_frame plain_helpers listening_renderer)) = None \<and>
   pendingFrames (snd (fire_frame plain_helpers listening_renderer)) = [2] \<and>
   pendingFrames (scheduleRefresh (snd (fire_frame plain_helpers listening_renderer))) = [2, 3] \<and>
   fst (fire_frame plain_helpers renderer_notified) = Some (NodePositionError ''C'') \<and>
   renderFrame (snd (fire_frame plain_helpers renderer_notified)) = Some 1 \<and>
   pendingFrames (snd (fire_frame plain_helpers renderer_notified)) = [] \<and>
   pendingFrames (schedule_calls [PublicSchedule, PublicSchedule]
      (snd (fire_frame plain_helpers renderer_notified))) = [] \<and>
   trace (schedule_calls [PublicSchedule, PublicSchedule]
      (snd (fire_frame plain_helpers renderer_notified))) =
     trace (snd (fire_frame plain_helpers renderer_notified))"
proof -
  have l: "listeners listening_renderer ''beforeRender'' = [] \<and>
      listeners listening_renderer ''resize'' = [] \<and>
      listeners listening_renderer ''afterRender'' = [CallScheduleRefresh] \<and>
      fst (fire_frame plain_helpers listening_renderer) = None"
    by (simp add: listening_facts listening_frame_fires)
  note a = frame_callback_loses_handle[OF listening_facts(1,2), where h = plain_helpers,
      THEN conjunct1, rule_format, OF l]
  note b = frame_callback_loses_handle[OF notified_facts, where h = plain_helpers
      and key = "''C''" and calls = "[PublicSchedule, PublicSchedule]",
      THEN conjunct2, rule_format, OF failed_frame]
  have n: "nextHandle listening_renderer = 2" by (rule listening_facts)
  have a1: "renderFrame (snd (fire_frame plain_helpers listening_renderer)) = None"
    using a by (elim conjE)
  have a2: "pendingFrames (snd (fire_frame plain_helpers listening_renderer)) = [2]"
    using a n by (elim conjE) simp
  have a3: "pendingFrames (scheduleRefresh (snd (fire_frame plain_helpers listening_renderer))) = [2, 3]"
    using a n by (elim conjE) simp
  have b1: "renderFrame (snd (fire_frame plain_helpers renderer_notified)) = Some 1"
    using b by (elim conjE)
  have b2: "pendingFrames (snd (fire_frame plain_helpers renderer_notified)) = []"
    using b by (elim conjE)
  have b3: "pendingFrames (schedule_calls [PublicSchedule, PublicSchedule]
      (snd (fire_frame plain_helpers renderer_notified))) = []"
    using b by (elim conjE)
  have b4: "trace (schedule_calls [PublicSchedule, PublicSchedule]
      (snd (fire_frame plain_helpers renderer_notified))) =
     trace (snd (fire_frame plain_helpers renderer_notified))"
    using b by (elim conjE)
  show ?thesis
    by (intro conjI listening_frame_fires a1 a2 a3 failed_frame b1 b2 b3 b4)
qed

subsection \<open>Missing positions\<close>

lemma label_step:
  "(case get_prop (if get_prop d2 ''label'' \<noteq> JUndefined \<and> get_prop d2 ''label'' \<noteq> JNull
           then d2(''label'' \<mapsto> JString str) else d2(''label'' \<mapsto> JNull)) ''label'' of
      JNull \<Rightarrow> True | JString x \<Rightarrow> True | _ \<Rightarrow> False)"
  by (simp add: get_prop_def)

text \<open>
  A record with a numeric \<open>x\<close> and a numeric \<open>y\<close> is resolved without an error, to a
  record in which every field of the display data is present. A record without an \<open>x\<close>
  or without a \<open>y\<close> makes \<open>process\<close> return the error; \<open>refresh()\<close> returns it to its
  caller. When the reprocess runs in the callback of a scheduled frame, the callback
  returns the error, after the operation that scheduled the frame has returned.
\<close>

lemma applyNodeDefaults_complete:
  assumes "has_numeric_position d"
  shows "\<exists>d'. applyNodeDefaults h st key d = Inr d' \<and> complete_node_data d'"
proof -
  from assms have xy: "d ''x'' \<noteq> None" "d ''y'' \<noteq> None"
    by (auto simp: has_numeric_position_def get_prop_def split: option.splits)
  define d1 where "d1 = (if \<not> truthy (get_prop d ''color'')
                  then d(''color'' \<mapsto> JString (defaultNodeColor st)) else d)"
  define d2 where "d2 = (if \<not> truthy (get_prop d1 ''label'') \<and> get_prop d1 ''label'' \<noteq> JString []
                  then d1(''label'' \<mapsto> JNull) else d1)"
  define d3 where "d3 = (if get_prop d2 ''label'' \<noteq> JUndefined \<and> get_prop d2 ''label'' \<noteq> JNull
                  then d2(''label'' \<mapsto> JString (toString h (get_prop d2 ''label'')))
                  else d2(''label'' \<mapsto> JNull))"
  define d4 where "d4 = (if \<not> truthy (get_prop d3 ''size'')
                  then d3(''size'' \<mapsto> JNumber (Fin 2)) else d3)"
  define d5 where "d5 = (if d4 ''hidden'' = None then d4(''hidden'' \<mapsto> JBool False) else d4)"
  define d6 where "d6 = (if d5 ''highlighted'' = None then d5(''highlighted'' \<mapsto> JBool False) else d5)"
  define d7 where "d7 = (if d6 ''forceLabel'' = None then d6(''forceLabel'' \<mapsto> JBool False) else d6)"
  define d8 where "d8 = (if \<not> truthy (get_prop d7 ''type'') \<or> get_prop d7 ''type'' = JString []
                  then d7(''type'' \<mapsto> JString (defaultNodeType st)) else d7)"
  define d9 where "d9 = (if \<not> truthy (get_prop d8 ''zIndex'')
                  then d8(''zIndex'' \<mapsto> JNumber (Fin 0)) else d8)"
  have r: "applyNodeDefaults h st key d = Inr d9"
    unfolding applyNodeDefaults_def Let_def d9_def d8_def d7_def d6_def d5_def d4_def d3_def
      d2_def d1_def by (simp only: xy simp_thms if_False)
  have pos1: "has_numeric_position d1" using assms by (simp add: d1_def has_numeric_position_def get_prop_def)
  have pos2: "has_numeric_position d2" using pos1 by (simp add: d2_def has_numeric_position_def get_prop_def)
  have pos3: "has_numeric_position d3" using pos2 by (simp add: d3_def has_numeric_position_def get_prop_def)
  have pos4: "has_numeric_position d4" using pos3 by (simp add: d4_def has_numeric_position_def get_prop_def)
  have pos5: "has_numeric_position d5" using pos4 by (simp add: d5_def has_numeric_position_def get_prop_def)
  have pos6: "has_numeric_position d6" using pos5 by (simp add: d6_def has_numeric_position_def get_prop_def)
  have pos7: "has_numeric_position d7" using pos6 by (simp add: d7_def has_numeric_position_def get_prop_def)
  have pos8: "has_numeric_position d8" using pos7 by (simp add: d8_def has_numeric_position_def get_prop_def)
  have pos9: "has_numeric_position d9" using pos8 by (simp add: d9_def has_numeric_position_def get_prop_def)
  have c1: "d1 ''color'' \<noteq> None"
    by (auto simp: d1_def get_prop_def split: option.splits)
  have l3: "d3 ''label'' \<noteq> None \<and>
      (case get_prop d3 ''label'' of JNull \<Rightarrow> True | JString x \<Rightarrow> True | _ \<Rightarrow> False)"
    by (simp add: d3_def get_prop_def)
  have c3: "d3 ''color'' \<noteq> None" using c1 by (simp add: d3_def d2_def)
  have s4: "d4 ''size'' \<noteq> None \<and> truthy (get_prop d4 ''size'')"
    by (auto simp: d4_def get_prop_def num_truthy_def split: option.splits)
  have k4: "d4 ''color'' \<noteq> None \<and> d4 ''label'' \<noteq> None \<and> get_prop d4 ''label'' = get_prop d3 ''label''"
    using c3 l3 by (simp add: d4_def get_prop_def)
  have k5: "d5 ''hidden'' \<noteq> None \<and> d5 ''color'' \<noteq> None \<and> d5 ''label'' \<noteq> None \<and> d5 ''size'' \<noteq> None \<and>
      get_prop d5 ''label'' = get_prop d3 ''label'' \<and> truthy (get_prop d5 ''size'')"
    using k4 s4 by (simp add: d5_def get_prop_def)
  have k6: "d6 ''highlighted'' \<noteq> None \<and> d6 ''hidden'' \<noteq> None \<and> d6 ''color'' \<noteq> None \<and>
      d6 ''label'' \<noteq> None \<and> d6 ''size'' \<noteq> None \<and>
      get_prop d6 ''label'' = get_prop d3 ''label'' \<and> truthy (get_prop d6 ''size'')"
    using k5 by (simp add: d6_def get_prop_def)
  have k7: "d7 ''forceLabel'' \<noteq> None \<and> d7 ''highlighted'' \<noteq> None \<and> d7 ''hidden'' \<noteq> None \<and>
      d7 ''color'' \<noteq> None \<and> d7 ''label'' \<noteq> None \<and> d7 ''size'' \<noteq> None \<and>
      get_prop d7 ''label'' = get_prop d3 ''label'' \<and> truthy (get_prop d7 ''size'')"
    using k6 by (simp add: d7_def get_prop_def)
  have k8: "d8 ''type'' \<noteq> None \<and> d8 ''forceLabel'' \<noteq> None \<and> d8 ''highlighted'' \<noteq> None \<and>
      d8 ''hidden'' \<noteq> None \<and> d8 ''color'' \<noteq> None \<and> d8 ''label'' \<noteq> None \<and> d8 ''size'' \<noteq> None \<and>
      get_prop d8 ''label'' = get_prop d3 ''label'' \<and> truthy (get_prop d8 ''size'')"
    using k7 by (auto simp: d8_def get_prop_def split: option.splits)
  have k9: "d9 ''zIndex'' \<noteq> None \<and> d9 ''type'' \<noteq> None \<and> d9 ''forceLabel'' \<noteq> None \<and>
      d9 ''highlighted'' \<noteq> None \<and> d9 ''hidden'' \<noteq> None \<and> d9 ''color'' \<noteq> None \<and>
      d9 ''label'' \<noteq> None \<and> d9 ''size'' \<noteq> None \<and>
      get_prop d9 ''label'' = get_prop d3 ''label'' \<and> truthy (get_prop d9 ''size'')"
    using k8 by (auto simp: d9_def get_prop_def split: option.splits)
  have "complete_node_data d9"
    unfolding complete_node_data_def using pos9 k9 l3 by simp
  with r show ?thesis by blast
qed

lemma refresh_position_error:
  assumes "find (\<lambda>entry. lacks_position (reduced_attributes (settings s) entry))
             (graph_nodes (graph s)) = Some bad"
  shows "fst (refresh h s) = Some (NodePositionError (fst bad))"
proof -
  let ?t = "s\<lparr>needToProcess := True\<rparr>"
  have "find (\<lambda>entry. lacks_position (reduced_attributes (settings ?t) entry))
             (graph_nodes (graph ?t)) = Some bad"
    using assms by simp
  then have e: "fst (process h False ?t) = Some (NodePositionError (fst bad))"
    by (rule process_position_error)
  have rp: "reprocess h ?t = process h False ?t" by (simp add: reprocess_def)
  show ?thesis
    unfolding refresh_def private_refresh_unfold rp using e by (simp add: andThen_fst_error)
qed









end
